theory Spec2Isabelle
  imports Main "HOL-Library.Product_Lexorder" "HOL-Library.Multiset"
begin

section \<open>The terminal canvas and character registry of terminaltexteffects\<close>

text \<open>
  A shallow embedding of \<^verbatim>\<open>terminaltexteffects/engine/terminal.py\<close>: the classes
  \<^verbatim>\<open>Canvas\<close> and \<^verbatim>\<open>Terminal\<close>. Python integers are \<open>int\<close>, a Python
  \<^verbatim>\<open>str\<close> is a list of code points, a raised exception is the \<open>Inl\<close> branch of a sum,
  and a method that mutates \<^verbatim>\<open>self\<close> returns the new object.
\<close>

subsection \<open>Python values\<close>

datatype error = ValueError | IndexError | KeyError

type_synonym codepoint = nat
type_synonym pystr = "codepoint list"

definition str_of :: "string \<Rightarrow> pystr" where
  "str_of s = map of_char s"

definition SPACE :: codepoint where
  "SPACE = 32"

definition TAB :: codepoint where
  "TAB = 9"

definition NEWLINE :: codepoint where
  "NEWLINE = 10"

text \<open>\<^verbatim>\<open>s * n\<close> on strings: the empty string when \<open>n \<le> 0\<close>.\<close>

definition str_times :: "pystr \<Rightarrow> int \<Rightarrow> pystr" where
  "str_times s n = concat (replicate (nat n) s)"

text \<open>\<^verbatim>\<open>sep.join(xs)\<close>.\<close>

fun join :: "pystr \<Rightarrow> pystr list \<Rightarrow> pystr" where
  "join sep [] = []"
| "join sep [x] = x"
| "join sep (x # y # ys) = x @ sep @ join sep (y # ys)"

text \<open>
  The slices \<^verbatim>\<open>xs[:n]\<close> and \<^verbatim>\<open>xs[n:]\<close>: a negative bound counts from the end.
\<close>

definition slice_to :: "int \<Rightarrow> 'a list \<Rightarrow> 'a list" where
  "slice_to n xs = (if 0 \<le> n then take (nat n) xs else take (length xs - nat (- n)) xs)"

definition slice_from :: "int \<Rightarrow> 'a list \<Rightarrow> 'a list" where
  "slice_from n xs = (if 0 \<le> n then drop (nat n) xs else drop (length xs - nat (- n)) xs)"

text \<open>\<^verbatim>\<open>max(xs)\<close> raises \<^verbatim>\<open>ValueError\<close> on the empty list.\<close>

fun py_max :: "int list \<Rightarrow> error + int" where
  "py_max [] = Inl ValueError"
| "py_max (x # xs) = Inr (fold max xs x)"

text \<open>
  The random module. The generator is a function giving the k-th raw draw;
  \<^verbatim>\<open>randint(a, b)\<close> raises on an empty range and otherwise reduces the draw into
  \<open>[a, b]\<close>, so every value of the range is the result of some draw;
  \<^verbatim>\<open>choice(xs)\<close> picks by index.
\<close>

definition randint :: "int \<Rightarrow> int \<Rightarrow> nat \<Rightarrow> error + int" where
  "randint a b draw = (if b < a then Inl ValueError else Inr (a + int (draw mod nat (b - a + 1))))"

definition choice :: "'a list \<Rightarrow> nat \<Rightarrow> error + 'a" where
  "choice xs draw = (if xs = [] then Inl IndexError else Inr (xs ! (draw mod length xs)))"

subsection \<open>Coord and Canvas\<close>

text \<open>
  Modelled from the spec: \<^verbatim>\<open>utils/geometry.py\<close> is not part of the sources at hand. The
  spec describes \<^verbatim>\<open>Coord\<close> as an immutable pair (column, row), equal and hashed by value.
\<close>

datatype Coord = Coord (column: int) (row: int)

record Canvas =
  top_row :: int
  right :: int
  bottom :: int
  left :: int
  center_row :: int
  center_column :: int
  center :: Coord

text \<open>
  The dataclass constructor followed by \<^verbatim>\<open>__post_init__\<close>. The field \<^verbatim>\<open>top\<close> is
  \<open>top_row\<close> here.
\<close>

definition Canvas_init :: "int \<Rightarrow> int \<Rightarrow> int \<Rightarrow> int \<Rightarrow> Canvas" where
  "Canvas_init t r b l =
     (let cr = max (t div 2) 1; cc = max (r div 2) 1
      in \<lparr>top_row = t, right = r, bottom = b, left = l,
          center_row = cr, center_column = cc, center = Coord cc cr\<rparr>)"

text \<open>\<^verbatim>\<open>Canvas(top, right)\<close>: bottom and left default to 1.\<close>

definition Canvas_default :: "int \<Rightarrow> int \<Rightarrow> Canvas" where
  "Canvas_default t r = Canvas_init t r 1 1"

definition coord_is_in_canvas :: "Canvas \<Rightarrow> Coord \<Rightarrow> bool" where
  "coord_is_in_canvas c coord \<longleftrightarrow>
     left c \<le> column coord \<and> column coord \<le> right c \<and>
     bottom c \<le> row coord \<and> row coord \<le> top_row c"

definition random_column :: "Canvas \<Rightarrow> nat \<Rightarrow> error + int" where
  "random_column c draw = randint 1 (right c) draw"

definition random_row :: "Canvas \<Rightarrow> nat \<Rightarrow> error + int" where
  "random_row c draw = randint 1 (top_row c) draw"

text \<open>
  \<^verbatim>\<open>random_coord\<close>: with \<^verbatim>\<open>outside_scope\<close> the four candidates are built in the
  source's order (above, below, left, right), each consuming one draw, and a fifth draw
  chooses among them.
\<close>

definition random_coord :: "Canvas \<Rightarrow> bool \<Rightarrow> (nat \<Rightarrow> nat) \<Rightarrow> error + Coord" where
  "random_coord c outside_scope rnd =
     (if outside_scope then
        (case random_column c (rnd 0) of Inl e \<Rightarrow> Inl e | Inr col_above \<Rightarrow>
         let random_coord_above = Coord col_above (top_row c + 1) in
         (case random_column c (rnd 1) of Inl e \<Rightarrow> Inl e | Inr col_below \<Rightarrow>
          let random_coord_below = Coord col_below (- 1) in
          (case random_row c (rnd 2) of Inl e \<Rightarrow> Inl e | Inr row_left \<Rightarrow>
           let random_coord_left = Coord (- 1) row_left in
           (case random_row c (rnd 3) of Inl e \<Rightarrow> Inl e | Inr row_right \<Rightarrow>
            let random_coord_right = Coord (right c + 1) row_right in
            choice [random_coord_above, random_coord_below,
                    random_coord_left, random_coord_right] (rnd 4)))))
      else
        (case random_column c (rnd 0) of Inl e \<Rightarrow> Inl e | Inr col \<Rightarrow>
         (case random_row c (rnd 1) of Inl e \<Rightarrow> Inl e | Inr rw \<Rightarrow> Inr (Coord col rw))))"

subsection \<open>Characters and configuration\<close>

text \<open>
  Modelled from the spec: \<^verbatim>\<open>engine/base_character.py\<close> is not part of the sources at
  hand. The spec gives an \<^verbatim>\<open>EffectCharacter\<close> a stable identity, a display symbol, a
  fixed input coordinate, a mutable current coordinate, a layer (default 0) and a
  visibility flag; the two animation flags are the ones \<^verbatim>\<open>Terminal\<close> sets after each
  creation. The constructor takes id, symbol, column and row, as its calls do.
\<close>

record EffectCharacter =
  character_id :: int
  symbol :: pystr
  input_coord :: Coord
  current_coord :: Coord
  layer :: int
  is_visible :: bool
  animation_use_xterm_colors :: bool
  animation_no_color :: bool

definition EffectCharacter_init :: "int \<Rightarrow> pystr \<Rightarrow> int \<Rightarrow> int \<Rightarrow> EffectCharacter" where
  "EffectCharacter_init cid smb col rw =
     \<lparr>character_id = cid, symbol = smb, input_coord = Coord col rw,
      current_coord = Coord col rw, layer = 0, is_visible = False,
      animation_use_xterm_colors = False, animation_no_color = False\<rparr>"

text \<open>
  \<^verbatim>\<open>TerminalConfig\<close>, without the frame rate, which only the output timing reads.
\<close>

record TerminalConfig =
  tab_width :: int
  xterm_colors :: bool
  no_color :: bool
  wrap_text :: bool
  canvas_width :: int
  canvas_height :: int
  ignore_terminal_dimensions :: bool

text \<open>\<^verbatim>\<open>TerminalConfig()\<close>: every field at its default.\<close>

definition TerminalConfig_default :: TerminalConfig where
  "TerminalConfig_default =
     \<lparr>tab_width = 4, xterm_colors = False, no_color = False, wrap_text = False,
      canvas_width = 0, canvas_height = 0, ignore_terminal_dimensions = False\<rparr>"

datatype CharacterGroup =
    COLUMN_LEFT_TO_RIGHT
  | COLUMN_RIGHT_TO_LEFT
  | ROW_TOP_TO_BOTTOM
  | ROW_BOTTOM_TO_TOP
  | DIAGONAL_TOP_LEFT_TO_BOTTOM_RIGHT
  | DIAGONAL_BOTTOM_LEFT_TO_TOP_RIGHT
  | DIAGONAL_TOP_RIGHT_TO_BOTTOM_LEFT
  | DIAGONAL_BOTTOM_RIGHT_TO_TOP_LEFT
  | CENTER_TO_OUTSIDE_DIAMONDS
  | OUTSIDE_TO_CENTER_DIAMONDS

text \<open>
  Python checks no argument type: \<^verbatim>\<open>get_characters_grouped\<close> can be handed any object.
  \<open>Member g\<close> is a member of the enum, \<open>NotAMember\<close> any other object.
\<close>

datatype grouping_argument = Member CharacterGroup | NotAMember

datatype CharacterSort =
    RANDOM
  | TOP_TO_BOTTOM_LEFT_TO_RIGHT
  | TOP_TO_BOTTOM_RIGHT_TO_LEFT
  | BOTTOM_TO_TOP_LEFT_TO_RIGHT
  | BOTTOM_TO_TOP_RIGHT_TO_LEFT
  | OUTSIDE_ROW_TO_MIDDLE
  | MIDDLE_ROW_TO_OUTSIDE

text \<open>
  The state of a \<^verbatim>\<open>Terminal\<close>. The dictionary \<^verbatim>\<open>character_by_input_coord\<close> is a map;
  the set \<^verbatim>\<open>_visible_characters\<close> is the list of its elements in iteration order.
  Characters are held by value: the methods below change no character once it is in a
  collection, so the copies agree with the shared objects of the source.
\<close>

record Terminal =
  config :: TerminalConfig
  input_data :: pystr
  detected_terminal_dimensions :: "int \<times> int"
  width :: int
  height :: int
  next_character_id :: int
  input_characters :: "EffectCharacter list"
  added_characters :: "EffectCharacter list"
  input_width :: int
  input_height :: int
  canvas :: Canvas
  character_by_input_coord :: "Coord \<rightharpoonup> EffectCharacter"
  fill_characters :: "EffectCharacter list"
  visible_characters :: "EffectCharacter list"
  terminal_state :: "pystr list"

subsection \<open>String methods used on the input\<close>

text \<open>The line boundaries of \<^verbatim>\<open>str.splitlines\<close>.\<close>

definition is_linebreak :: "codepoint \<Rightarrow> bool" where
  "is_linebreak c \<longleftrightarrow> c \<in> set [10, 11, 12, 13, 28, 29, 30, 133, 8232, 8233]"

text \<open>
  \<^verbatim>\<open>str.splitlines()\<close>: a carriage return followed by a line feed is one boundary, and
  a final boundary opens no further line.
\<close>

fun splitlines_from :: "pystr \<Rightarrow> pystr \<Rightarrow> pystr list" where
  "splitlines_from cur [] = (if cur = [] then [] else [cur])"
| "splitlines_from cur [c] = (if is_linebreak c then [cur] else [cur @ [c]])"
| "splitlines_from cur (c # d # cs) =
     (if c = 13 \<and> d = 10 then cur # splitlines_from [] cs
      else if is_linebreak c then cur # splitlines_from [] (d # cs)
      else splitlines_from (cur @ [c]) (d # cs))"

definition splitlines :: "pystr \<Rightarrow> pystr list" where
  "splitlines s = splitlines_from [] s"

text \<open>The characters \<^verbatim>\<open>str.strip()\<close> removes: those for which \<^verbatim>\<open>str.isspace\<close> holds.\<close>

definition isspace :: "codepoint \<Rightarrow> bool" where
  "isspace c \<longleftrightarrow>
     (9 \<le> c \<and> c \<le> 13) \<or> (28 \<le> c \<and> c \<le> 32) \<or> c = 133 \<or> c = 160 \<or> c = 5760 \<or>
     (8192 \<le> c \<and> c \<le> 8202) \<or> c = 8232 \<or> c = 8233 \<or> c = 8239 \<or> c = 8287 \<or> c = 12288"

definition strip :: "pystr \<Rightarrow> pystr" where
  "strip s = rev (dropWhile isspace (rev (dropWhile isspace s)))"

text \<open>\<^verbatim>\<open>s.replace(old, new)\<close> for a one-character \<^verbatim>\<open>old\<close>.\<close>

definition replace_char :: "codepoint \<Rightarrow> pystr \<Rightarrow> pystr \<Rightarrow> pystr" where
  "replace_char old new s = concat (map (\<lambda>c. if c = old then new else [c]) s)"

definition NO_INPUT :: pystr where
  "NO_INPUT = str_of ''No Input.''"

subsection \<open>Terminal: decomposing the input\<close>

text \<open>
  \<^verbatim>\<open>_wrap_lines\<close>. The inner \<^verbatim>\<open>while\<close> loop does not end when the width is not
  positive and the line is not empty, so wrapping one line is a partial function.
\<close>

partial_function (option) wrap_line :: "int \<Rightarrow> pystr \<Rightarrow> pystr list option" where
  "wrap_line w line =
     (if w < int (length line)
      then Option.bind (wrap_line w (slice_from w line)) (\<lambda>rest. Some (slice_to w line # rest))
      else Some [line])"

declare wrap_line.simps [code]

fun wrap_lines :: "int \<Rightarrow> pystr list \<Rightarrow> pystr list option" where
  "wrap_lines w [] = Some []"
| "wrap_lines w (line # lines) =
     (case wrap_line w line of None \<Rightarrow> None
      | Some wrapped \<Rightarrow>
          (case wrap_lines w lines of None \<Rightarrow> None | Some rest \<Rightarrow> Some (wrapped @ rest)))"

text \<open>
  The two loops of \<^verbatim>\<open>_decompose_input\<close>: \<open>rw\<close> and \<open>col\<close> are the indices that
  \<^verbatim>\<open>enumerate\<close> supplies, \<open>nid\<close> is \<^verbatim>\<open>_next_character_id\<close>, returned updated.
\<close>

fun decompose_line ::
  "bool \<Rightarrow> bool \<Rightarrow> int \<Rightarrow> int \<Rightarrow> int \<Rightarrow> pystr \<Rightarrow> int \<Rightarrow> EffectCharacter list \<times> int" where
  "decompose_line ux nc total_lines rw col [] nid = ([], nid)"
| "decompose_line ux nc total_lines rw col (smb # line) nid =
     (if smb \<noteq> SPACE then
        (let character = (EffectCharacter_init nid [smb] (col + 1) (total_lines - rw))
               \<lparr>animation_use_xterm_colors := ux, animation_no_color := nc\<rparr>
         in case decompose_line ux nc total_lines rw (col + 1) line (nid + 1) of
              (rest, nid') \<Rightarrow> (character # rest, nid'))
      else decompose_line ux nc total_lines rw (col + 1) line nid)"

fun decompose_lines ::
  "bool \<Rightarrow> bool \<Rightarrow> int \<Rightarrow> int \<Rightarrow> pystr list \<Rightarrow> int \<Rightarrow> EffectCharacter list \<times> int" where
  "decompose_lines ux nc total_lines rw [] nid = ([], nid)"
| "decompose_lines ux nc total_lines rw (line # lines) nid =
     (case decompose_line ux nc total_lines rw 0 line nid of
        (chars, nid') \<Rightarrow>
          (case decompose_lines ux nc total_lines (rw + 1) lines nid' of
             (rest, nid'') \<Rightarrow> (chars @ rest, nid'')))"

text \<open>
  The lines after wrapping or truncating; \<open>None\<close> when the wrapping does not return.
\<close>

definition format_lines :: "bool \<Rightarrow> int \<Rightarrow> pystr list \<Rightarrow> pystr list option" where
  "format_lines wrap w lines =
     (if wrap then wrap_lines w lines else Some (map (slice_to w) lines))"

text \<open>
  \<^verbatim>\<open>_decompose_input\<close> reads and may replace \<^verbatim>\<open>_input_data\<close>, and advances
  \<^verbatim>\<open>_next_character_id\<close>: it returns the characters and the new object.
\<close>

definition decompose_input ::
  "bool \<Rightarrow> bool \<Rightarrow> Terminal \<Rightarrow> (EffectCharacter list \<times> Terminal) option" where
  "decompose_input use_xterm_colors no_clr t =
     (let t1 = (if strip (input_data t) = [] then t\<lparr>input_data := NO_INPUT\<rparr> else t);
          lines = splitlines (input_data t1)
      in case format_lines (wrap_text (config t1)) (width t1) lines of
           None \<Rightarrow> None
         | Some formatted_lines \<Rightarrow>
             (case decompose_lines use_xterm_colors no_clr (int (length formatted_lines)) 0
                     formatted_lines (next_character_id t1) of
                (chars, nid) \<Rightarrow> Some (chars, t1\<lparr>next_character_id := nid\<rparr>)))"

subsection \<open>Terminal: fill characters, added characters, construction\<close>

text \<open>
  The two loops of \<^verbatim>\<open>_make_fill_characters\<close> over the rows and columns of the canvas.
  The state is the list of fill characters so far, the dictionary and the next id.
\<close>

type_synonym fill_state = "EffectCharacter list \<times> (Coord \<rightharpoonup> EffectCharacter) \<times> int"

fun fill_columns :: "TerminalConfig \<Rightarrow> int \<Rightarrow> int list \<Rightarrow> fill_state \<Rightarrow> fill_state" where
  "fill_columns cfg rw [] st = st"
| "fill_columns cfg rw (col # cols) (fills, m, nid) =
     (let coord = Coord col rw in
      if m coord = None then
        (let fill_char = (EffectCharacter_init nid [SPACE] col rw)
               \<lparr>animation_use_xterm_colors := xterm_colors cfg,
                animation_no_color := no_color cfg\<rparr>
         in fill_columns cfg rw cols (fills @ [fill_char], m(coord \<mapsto> fill_char), nid + 1))
      else fill_columns cfg rw cols (fills, m, nid))"

fun fill_rows :: "TerminalConfig \<Rightarrow> int list \<Rightarrow> int list \<Rightarrow> fill_state \<Rightarrow> fill_state" where
  "fill_rows cfg [] cols st = st"
| "fill_rows cfg (rw # rws) cols st = fill_rows cfg rws cols (fill_columns cfg rw cols st)"

text \<open>\<^verbatim>\<open>range(a, b)\<close>.\<close>

definition py_range :: "int \<Rightarrow> int \<Rightarrow> int list" where
  "py_range a b = [a..b - 1]"

definition make_fill_characters :: "Terminal \<Rightarrow> EffectCharacter list \<times> Terminal" where
  "make_fill_characters t =
     (case fill_rows (config t) (py_range 1 (top_row (canvas t) + 1))
             (py_range 1 (right (canvas t) + 1))
             ([], character_by_input_coord t, next_character_id t) of
        (fills, m, nid) \<Rightarrow>
          (fills, t\<lparr>character_by_input_coord := m, next_character_id := nid\<rparr>))"

definition add_character :: "pystr \<Rightarrow> Coord \<Rightarrow> Terminal \<Rightarrow> EffectCharacter \<times> Terminal" where
  "add_character smb coord t =
     (let character = (EffectCharacter_init (next_character_id t) smb (column coord) (row coord))
            \<lparr>animation_use_xterm_colors := xterm_colors (config t),
             animation_no_color := no_color (config t)\<rparr>
      in (character,
          t\<lparr>added_characters := added_characters t @ [character],
            next_character_id := next_character_id t + 1\<rparr>))"

text \<open>A sequence of \<^verbatim>\<open>add_character\<close> calls, each given its symbol and coordinate.\<close>

fun add_characters :: "(pystr \<times> Coord) list \<Rightarrow> Terminal \<Rightarrow> Terminal" where
  "add_characters [] t = t"
| "add_characters ((smb, coord) # calls) t = add_characters calls (snd (add_character smb coord t))"

text \<open>\<^verbatim>\<open>_update_terminal_state\<close>: one visible character written into the grid.\<close>

definition place_character :: "Canvas \<Rightarrow> EffectCharacter \<Rightarrow> pystr list list \<Rightarrow> pystr list list" where
  "place_character cv character rows =
     (let rw = row (current_coord character) - 1;
          col = column (current_coord character) - 1
      in if 0 \<le> rw \<and> rw < top_row cv \<and> 0 \<le> col \<and> col < right cv
         then rows[nat rw := (rows ! nat rw)[nat col := symbol character]]
         else rows)"

definition update_terminal_state :: "Terminal \<Rightarrow> Terminal" where
  "update_terminal_state t =
     (let rows = replicate (nat (top_row (canvas t)))
                   (replicate (nat (right (canvas t))) [SPACE]);
          rows' = fold (place_character (canvas t))
                    (sort_key layer (visible_characters t)) rows
      in t\<lparr>terminal_state := map (join []) rows'\<rparr>)"

definition get_formatted_output_string :: "Terminal \<Rightarrow> pystr \<times> Terminal" where
  "get_formatted_output_string t =
     (let t' = update_terminal_state t
      in (join [NEWLINE] (rev (terminal_state t')), t'))"

definition get_character_by_input_coord :: "Terminal \<Rightarrow> Coord \<Rightarrow> EffectCharacter option" where
  "get_character_by_input_coord t coord = character_by_input_coord t coord"

text \<open>The first lines of \<^verbatim>\<open>__init__\<close>: the input data and the requested dimensions.\<close>

definition init_input_data :: "pystr \<Rightarrow> TerminalConfig \<Rightarrow> pystr" where
  "init_input_data inp cfg =
     replace_char TAB (str_times [SPACE] (tab_width cfg)) (if inp = [] then NO_INPUT else inp)"

definition init_dimensions :: "pystr \<Rightarrow> TerminalConfig \<Rightarrow> int \<times> int \<Rightarrow> error + int \<times> int" where
  "init_dimensions data cfg detected =
     (if ignore_terminal_dimensions cfg then
        (case py_max (map (\<lambda>line. int (length line)) (splitlines data)) of
           Inl e \<Rightarrow> Inl e
         | Inr w \<Rightarrow> Inr (w, int (length (splitlines data)) + 1))
      else if canvas_width cfg = 0 \<or> canvas_height cfg = 0 then
        Inr (if canvas_width cfg = 0 then fst detected else canvas_width cfg,
             if canvas_height cfg = 0 then snd detected else canvas_height cfg)
      else Inr (canvas_width cfg, canvas_height cfg))"

text \<open>
  The object before \<^verbatim>\<open>__init__\<close> has assigned its later attributes: each of them holds
  a placeholder that is overwritten before it is read.
\<close>

definition Terminal_unassigned ::
  "TerminalConfig \<Rightarrow> pystr \<Rightarrow> int \<times> int \<Rightarrow> int \<Rightarrow> int \<Rightarrow> Terminal" where
  "Terminal_unassigned cfg data detected w h =
     \<lparr>config = cfg, input_data = data, detected_terminal_dimensions = detected,
      width = w, height = h, next_character_id = 0, input_characters = [],
      added_characters = [], input_width = 0, input_height = 0,
      canvas = Canvas_default 0 0, character_by_input_coord = Map.empty,
      fill_characters = [], visible_characters = [], terminal_state = []\<rparr>"

text \<open>
  \<^verbatim>\<open>Terminal.__init__\<close>, given the input, the configuration and the dimensions that
  \<^verbatim>\<open>_get_terminal_dimensions\<close> detected. \<open>None\<close>: the constructor does not return;
  \<open>Some (Inl e)\<close>: it raises \<open>e\<close>.
\<close>

definition Terminal_init ::
  "pystr \<Rightarrow> TerminalConfig \<Rightarrow> int \<times> int \<Rightarrow> (error + Terminal) option" where
  "Terminal_init inp cfg detected =
     (let data = init_input_data inp cfg in
      case init_dimensions data cfg detected of
        Inl e \<Rightarrow> Some (Inl e)
      | Inr (w, h) \<Rightarrow>
          (case decompose_input (xterm_colors cfg) (no_color cfg)
                  (Terminal_unassigned cfg data detected w h) of
             None \<Rightarrow> None
           | Some (chars, t1) \<Rightarrow>
               (let t2 = t1\<lparr>input_characters := chars, added_characters := []\<rparr> in
                case py_max (map (\<lambda>c. column (input_coord c)) (input_characters t2)) of
                  Inl e \<Rightarrow> Some (Inl e)
                | Inr iw \<Rightarrow>
                    (case py_max (map (\<lambda>c. row (input_coord c)) (input_characters t2)) of
                       Inl e \<Rightarrow> Some (Inl e)
                     | Inr ih \<Rightarrow>
                         (let t3 = t2\<lparr>input_width := iw, input_height := ih\<rparr>;
                              t4 = t3\<lparr>canvas :=
                                     Canvas_default (min (max (height t3) 1) (input_height t3))
                                       (input_width t3)\<rparr>;
                              t5 = t4\<lparr>input_characters :=
                                     filter (\<lambda>c. row (input_coord c) \<le> top_row (canvas t4) \<and>
                                                 column (input_coord c) \<le> right (canvas t4))
                                       (input_characters t4)\<rparr>;
                              t6 = t5\<lparr>character_by_input_coord :=
                                     fold (\<lambda>c m. m(input_coord c \<mapsto> c))
                                       (input_characters t5) Map.empty\<rparr>
                          in case make_fill_characters t6 of
                               (fills, t7) \<Rightarrow>
                                 Some (Inr (update_terminal_state
                                   (t7\<lparr>fill_characters := fills,
                                       visible_characters := []\<rparr>))))))))"

subsection \<open>Terminal: sorted and grouped views\<close>

text \<open>The characters a query asks for: the three \<^verbatim>\<open>extend\<close> calls.\<close>

definition select_characters :: "Terminal \<Rightarrow> bool \<Rightarrow> bool \<Rightarrow> bool \<Rightarrow> EffectCharacter list" where
  "select_characters t input_chars fill_chars added_chars =
     (if input_chars then input_characters t else []) @
     (if fill_chars then fill_characters t else []) @
     (if added_chars then added_characters t else [])"

text \<open>
  \<^verbatim>\<open>random.shuffle\<close>: for i from the last index down to 1, swap position i with a
  random position of \<open>[0, i]\<close>.
\<close>

fun shuffle_loop :: "nat list \<Rightarrow> (nat \<Rightarrow> nat) \<Rightarrow> nat \<Rightarrow> 'a list \<Rightarrow> 'a list" where
  "shuffle_loop [] rnd k xs = xs"
| "shuffle_loop (i # is) rnd k xs =
     (let j = rnd k mod (i + 1)
      in shuffle_loop is rnd (k + 1) (xs[i := xs ! j, j := xs ! i]))"

definition shuffle :: "(nat \<Rightarrow> nat) \<Rightarrow> 'a list \<Rightarrow> 'a list" where
  "shuffle rnd xs = shuffle_loop (rev [1..<length xs]) rnd 0 xs"

text \<open>
  The comprehension of the OUTSIDE_ROW_TO_MIDDLE sort: for each i of the range taken
  before the first pop, \<^verbatim>\<open>pop(0)\<close> when i is even and \<^verbatim>\<open>pop(-1)\<close> otherwise; a pop
  from an empty list raises \<^verbatim>\<open>IndexError\<close>.
\<close>

fun pop_alternating :: "nat list \<Rightarrow> 'a list \<Rightarrow> error + 'a list" where
  "pop_alternating [] xs = Inr []"
| "pop_alternating (i # is) xs =
     (if i mod 2 = 0 then
        (case xs of
           [] \<Rightarrow> Inl IndexError
         | y # ys \<Rightarrow>
             (case pop_alternating is ys of Inl e \<Rightarrow> Inl e | Inr r \<Rightarrow> Inr (y # r)))
      else
        (if xs = [] then Inl IndexError
         else (case pop_alternating is (butlast xs) of
                 Inl e \<Rightarrow> Inl e
               | Inr r \<Rightarrow> Inr (last xs # r))))"

definition get_characters ::
  "bool \<Rightarrow> bool \<Rightarrow> bool \<Rightarrow> CharacterSort \<Rightarrow> (nat \<Rightarrow> nat) \<Rightarrow> Terminal
     \<Rightarrow> error + EffectCharacter list" where
  "get_characters input_chars fill_chars added_chars srt rnd t =
     (let all_characters =
            sort_key (\<lambda>c. (- row (input_coord c), column (input_coord c)))
              (select_characters t input_chars fill_chars added_chars)
      in if srt = RANDOM then Inr (shuffle rnd all_characters)
         else if srt = TOP_TO_BOTTOM_LEFT_TO_RIGHT \<or> srt = BOTTOM_TO_TOP_RIGHT_TO_LEFT then
           Inr (if srt = BOTTOM_TO_TOP_RIGHT_TO_LEFT then rev all_characters
                else all_characters)
         else if srt = BOTTOM_TO_TOP_LEFT_TO_RIGHT \<or> srt = TOP_TO_BOTTOM_RIGHT_TO_LEFT then
           (let resorted =
                  sort_key (\<lambda>c. (row (input_coord c), column (input_coord c))) all_characters
            in Inr (if srt = TOP_TO_BOTTOM_RIGHT_TO_LEFT then rev resorted else resorted))
         else if srt = OUTSIDE_ROW_TO_MIDDLE \<or> srt = MIDDLE_ROW_TO_OUTSIDE then
           (case pop_alternating [0..<length all_characters] all_characters of
              Inl e \<Rightarrow> Inl e
            | Inr popped \<Rightarrow>
                Inr (if srt = MIDDLE_ROW_TO_OUTSIDE then rev popped else popped))
         else Inr all_characters)"

text \<open>
  The loop shared by the column, row and diagonal groupings: for each index of the range
  the characters whose key equals it, kept when there is at least one.
\<close>

fun group_by_index ::
  "(EffectCharacter \<Rightarrow> int) \<Rightarrow> EffectCharacter list \<Rightarrow> int list \<Rightarrow> EffectCharacter list list" where
  "group_by_index key all_characters [] = []"
| "group_by_index key all_characters (i # is) =
     (let characters_in_group = filter (\<lambda>character. key character = i) all_characters
      in if characters_in_group \<noteq> [] then
           characters_in_group # group_by_index key all_characters is
         else group_by_index key all_characters is)"

text \<open>
  The diamond groupings: \<^verbatim>\<open>distance_map\<close> is a dictionary in insertion order, here a
  list of pairs with distinct keys.
\<close>

type_synonym distance_map = "(int \<times> EffectCharacter list) list"

definition distance_map_append :: "distance_map \<Rightarrow> int \<Rightarrow> EffectCharacter \<Rightarrow> distance_map" where
  "distance_map_append dm distance character =
     (let dm' = (if map_of dm distance = None then dm @ [(distance, [])] else dm)
      in map (\<lambda>(k, v). if k = distance then (k, v @ [character]) else (k, v)) dm')"

fun build_distance_map :: "Canvas \<Rightarrow> EffectCharacter list \<Rightarrow> distance_map \<Rightarrow> distance_map" where
  "build_distance_map cv [] dm = dm"
| "build_distance_map cv (character # rest) dm =
     (let distance = \<bar>column (input_coord character) - column (center cv)\<bar>
                     + \<bar>row (input_coord character) - row (center cv)\<bar>
      in build_distance_map cv rest (distance_map_append dm distance character))"

fun lookup_groups :: "distance_map \<Rightarrow> int list \<Rightarrow> error + EffectCharacter list list" where
  "lookup_groups dm [] = Inr []"
| "lookup_groups dm (distance # rest) =
     (case map_of dm distance of
        None \<Rightarrow> Inl KeyError
      | Some characters \<Rightarrow>
          (case lookup_groups dm rest of
             Inl e \<Rightarrow> Inl e
           | Inr groups \<Rightarrow> Inr (characters # groups)))"

text \<open>\<^verbatim>\<open>sorted(keys, reverse=flag)\<close>.\<close>

definition sorted_keys :: "int list \<Rightarrow> bool \<Rightarrow> int list" where
  "sorted_keys ks reverse = (if reverse then sort_key uminus ks else sort_key (\<lambda>k. k) ks)"

text \<open>
  \<^verbatim>\<open>get_characters_grouped\<close>. It returns the object next to its result, so that what it
  does to the registry can be stated.
\<close>

definition get_characters_grouped ::
  "grouping_argument \<Rightarrow> bool \<Rightarrow> bool \<Rightarrow> bool \<Rightarrow> Terminal
     \<Rightarrow> (error + EffectCharacter list list) \<times> Terminal" where
  "get_characters_grouped grouping input_chars fill_chars added_chars t =
     (let all_characters =
            sort_key (\<lambda>c. (row (input_coord c), column (input_coord c)))
              (select_characters t input_chars fill_chars added_chars)
      in if grouping = Member COLUMN_LEFT_TO_RIGHT \<or> grouping = Member COLUMN_RIGHT_TO_LEFT then
           (let columns = group_by_index (\<lambda>c. column (input_coord c)) all_characters
                            (py_range 0 (right (canvas t) + 1))
            in (Inr (if grouping = Member COLUMN_RIGHT_TO_LEFT then rev columns else columns), t))
         else if grouping = Member ROW_BOTTOM_TO_TOP \<or> grouping = Member ROW_TOP_TO_BOTTOM then
           (let rows = group_by_index (\<lambda>c. row (input_coord c)) all_characters
                         (py_range 0 (top_row (canvas t) + 1))
            in (Inr (if grouping = Member ROW_TOP_TO_BOTTOM then rev rows else rows), t))
         else if grouping = Member DIAGONAL_BOTTOM_LEFT_TO_TOP_RIGHT
                 \<or> grouping = Member DIAGONAL_TOP_RIGHT_TO_BOTTOM_LEFT then
           (let diagonals = group_by_index
                              (\<lambda>c. row (input_coord c) + column (input_coord c)) all_characters
                              (py_range 0 (top_row (canvas t) + right (canvas t) + 1))
            in (Inr (if grouping = Member DIAGONAL_TOP_RIGHT_TO_BOTTOM_LEFT
                     then rev diagonals else diagonals), t))
         else if grouping = Member DIAGONAL_TOP_LEFT_TO_BOTTOM_RIGHT
                 \<or> grouping = Member DIAGONAL_BOTTOM_RIGHT_TO_TOP_LEFT then
           (let diagonals = group_by_index
                              (\<lambda>c. column (input_coord c) - row (input_coord c)) all_characters
                              (py_range (left (canvas t) - top_row (canvas t))
                                 (right (canvas t) - bottom (canvas t) + 1))
            in (Inr (if grouping = Member DIAGONAL_BOTTOM_RIGHT_TO_TOP_LEFT
                     then rev diagonals else diagonals), t))
         else if grouping = Member CENTER_TO_OUTSIDE_DIAMONDS
                 \<or> grouping = Member OUTSIDE_TO_CENTER_DIAMONDS then
           (let dm = build_distance_map (canvas t) all_characters []
            in (lookup_groups dm
                  (sorted_keys (map fst dm) (grouping = Member OUTSIDE_TO_CENTER_DIAMONDS)), t))
         else (Inl ValueError, t))"

section \<open>Properties\<close>

subsection \<open>Canvas\<close>

lemma randint_range:
  assumes "a \<le> b"
  shows "\<exists>v. randint a b draw = Inr v \<and> a \<le> v \<and> v \<le> b"
proof -
  have "0 < nat (b - a + 1)"
    using assms by simp
  then have "draw mod nat (b - a + 1) < nat (b - a + 1)"
    by (rule mod_less_divisor)
  then have "int (draw mod nat (b - a + 1)) \<le> b - a"
    using assms by linarith
  then show ?thesis
    using assms by (simp add: randint_def)
qed

lemma randint_empty: "b < a \<Longrightarrow> randint a b draw = Inl ValueError"
  by (simp add: randint_def)

text \<open>
  C4, as the claim states it, fails: the constructor stores the four bounds as they are
  given. \<^verbatim>\<open>Canvas(0, 0)\<close> has top 0 below bottom 1 and right 0 below left 1.
\<close>

theorem Canvas_bounds_not_clamped:
  "top_row (Canvas_default 0 0) = 0 \<and> right (Canvas_default 0 0) = 0 \<and>
   \<not> bottom (Canvas_default 0 0) \<le> top_row (Canvas_default 0 0) \<and>
   \<not> left (Canvas_default 0 0) \<le> right (Canvas_default 0 0)"
  by (simp add: Canvas_default_def Canvas_init_def)

text \<open>
  C4, amended: after construction the four bounds of a Canvas are the constructor's
  arguments, unchanged; what is clamped to at least 1 is the centre, whose row is
  \<open>max (top div 2) 1\<close> and whose column is \<open>max (right div 2) 1\<close>.
\<close>

theorem Canvas_init_center_clamped:
  "top_row (Canvas_init t r b l) = t \<and> right (Canvas_init t r b l) = r \<and>
   bottom (Canvas_init t r b l) = b \<and> left (Canvas_init t r b l) = l \<and>
   center_row (Canvas_init t r b l) = max (t div 2) 1 \<and>
   center_column (Canvas_init t r b l) = max (r div 2) 1 \<and>
   center (Canvas_init t r b l) = Coord (max (r div 2) 1) (max (t div 2) 1) \<and>
   1 \<le> center_row (Canvas_init t r b l) \<and> 1 \<le> center_column (Canvas_init t r b l)"
  by (simp add: Canvas_init_def Let_def)

text \<open>C4, amended, at \<^verbatim>\<open>Canvas(0, 7)\<close>: top stays 0, the centre is (3, 1).\<close>

theorem Canvas_init_center_clamped_witness:
  "top_row (Canvas_init 0 7 1 1) = 0 \<and> right (Canvas_init 0 7 1 1) = 7 \<and>
   center (Canvas_init 0 7 1 1) = Coord 3 1"
  using Canvas_init_center_clamped [of 0 7 1 1] by simp


text \<open>
  On a canvas without a row or without a column the call returns nothing: the first
  \<^verbatim>\<open>randint\<close> on an empty range raises.
\<close>

lemma random_coord_raises_on_empty_canvas:
  assumes "top_row c < 1 \<or> right c < 1"
  shows "random_coord c True rnd = Inl ValueError"
proof (cases "right c < 1")
  case True
  then show ?thesis
    by (simp add: random_coord_def random_column_def randint_empty)
next
  case False
  then have "top_row c < 1" "1 \<le> right c"
    using assms by simp_all
  then obtain ca cb where "random_column c (rnd 0) = Inr ca" "random_column c (rnd 1) = Inr cb"
    using randint_range [of 1 "right c"] unfolding random_column_def by blast
  then show ?thesis
    using \<open>top_row c < 1\<close> by (simp add: random_coord_def random_row_def randint_empty)
qed

text \<open>
  The constant -1 happens to be outside when the bottom and left bounds are above it, as
  the default 1 is: there every outcome of the five draws gives a coordinate that is not
  in the canvas.
\<close>

lemma random_coord_outside_when_origin_above_minus_one:
  assumes "1 \<le> top_row c" "1 \<le> right c" "- 1 < bottom c" "- 1 < left c"
  shows "\<exists>co. random_coord c True rnd = Inr co \<and> \<not> coord_is_in_canvas c co"
proof -
  obtain ca where ca: "random_column c (rnd 0) = Inr ca" "1 \<le> ca" "ca \<le> right c"
    using randint_range [OF assms(2)] unfolding random_column_def by blast
  obtain cb where cb: "random_column c (rnd 1) = Inr cb" "1 \<le> cb" "cb \<le> right c"
    using randint_range [OF assms(2)] unfolding random_column_def by blast
  obtain rl where rl: "random_row c (rnd 2) = Inr rl" "1 \<le> rl" "rl \<le> top_row c"
    using randint_range [OF assms(1)] unfolding random_row_def by blast
  obtain rr where rr: "random_row c (rnd 3) = Inr rr" "1 \<le> rr" "rr \<le> top_row c"
    using randint_range [OF assms(1)] unfolding random_row_def by blast
  have "rnd 4 mod 4 < 4"
    by simp
  then consider "rnd 4 mod 4 = 0" | "rnd 4 mod 4 = 1" | "rnd 4 mod 4 = 2" | "rnd 4 mod 4 = 3"
    by linarith
  then show ?thesis
    using assms ca cb rl rr
    by cases (simp_all add: random_coord_def choice_def coord_is_in_canvas_def)
qed

subsection \<open>Decomposing the input\<close>

lemma decompose_line_closed_form:
  "map (\<lambda>c. (symbol c, input_coord c)) (fst (decompose_line ux nc h r (int n) line nid)) =
   map (\<lambda>(k, s). ([s], Coord (int k + 1) (h - r)))
     (filter (\<lambda>(k, s). s \<noteq> SPACE) (enumerate n line))"
proof (induction line arbitrary: n nid)
  case Nil
  then show ?case by simp
next
  case (Cons s line)
  have shift: "int n + 1 = int (Suc n)" by simp
  obtain rest nid' where d: "decompose_line ux nc h r (int (Suc n)) line (nid + 1) = (rest, nid')"
    by (cases "decompose_line ux nc h r (int (Suc n)) line (nid + 1)")
  have ih: "map (\<lambda>c. (symbol c, input_coord c)) rest =
    map (\<lambda>(k, s). ([s], Coord (int k + 1) (h - r)))
     (filter (\<lambda>(k, s). s \<noteq> SPACE) (enumerate (Suc n) line))"
    using Cons.IH [of "Suc n" "nid + 1"] d by simp
  show ?case
  proof (cases "s = SPACE")
    case True
    then show ?thesis
      using Cons.IH [of "Suc n" nid] by (simp add: shift del: of_nat_Suc)
  next
    case False
    then show ?thesis
      using d ih by (simp add: shift EffectCharacter_init_def del: of_nat_Suc)
  qed
qed

lemma upt_shift: "map (\<lambda>k. f (a + k)) [0..<n] = map f [a..<a + n]"
  by (induction n) simp_all

lemma decompose_line_ids:
  "map character_id (fst (decompose_line ux nc h r col line nid)) =
     map (\<lambda>k. nid + int k) [0..<length (fst (decompose_line ux nc h r col line nid))] \<and>
   snd (decompose_line ux nc h r col line nid) =
     nid + int (length (fst (decompose_line ux nc h r col line nid)))"
proof (induction line arbitrary: col nid)
  case Nil
  then show ?case by simp
next
  case (Cons s line)
  show ?case
  proof (cases "s = SPACE")
    case True
    then show ?thesis using Cons.IH [of "col + 1" nid] by simp
  next
    case False
    obtain rest nid' where d: "decompose_line ux nc h r (col + 1) line (nid + 1) = (rest, nid')"
      by (cases "decompose_line ux nc h r (col + 1) line (nid + 1)")
    have ih: "map character_id rest = map (\<lambda>k. nid + 1 + int k) [0..<length rest]"
      "nid' = nid + 1 + int (length rest)"
      using Cons.IH [of "col + 1" "nid + 1"] d by simp_all
    have "map (\<lambda>k. nid + int k) [0..<Suc (length rest)] =
          nid # map (\<lambda>k. nid + int k) [1..<1 + length rest]"
      by (simp add: upt_conv_Cons del: upt_Suc)
    also have "map (\<lambda>k. nid + int k) [1..<1 + length rest] =
          map (\<lambda>k. nid + int (1 + k)) [0..<length rest]"
      by (rule upt_shift [symmetric])
    finally have "map (\<lambda>k. nid + int k) [0..<Suc (length rest)] =
          nid # map (\<lambda>k. nid + 1 + int k) [0..<length rest]"
      by (simp add: add.assoc)
    then show ?thesis
      using False d ih by (simp add: EffectCharacter_init_def del: upt_Suc)
  qed
qed


lemma decompose_lines_closed_form:
  "map (\<lambda>c. (symbol c, input_coord c)) (fst (decompose_lines ux nc h (int m) lines nid)) =
   concat (map (\<lambda>(r, line).
       map (\<lambda>(k, s). ([s], Coord (int k + 1) (h - int r)))
         (filter (\<lambda>(k, s). s \<noteq> SPACE) (enumerate 0 line)))
     (enumerate m lines))"
proof (induction lines arbitrary: m nid)
  case Nil
  then show ?case by simp
next
  case (Cons line lines)
  have shift: "int m + 1 = int (Suc m)" by simp
  obtain chars nid' where d1: "decompose_line ux nc h (int m) 0 line nid = (chars, nid')"
    by (cases "decompose_line ux nc h (int m) 0 line nid")
  obtain rest nid'' where d2: "decompose_lines ux nc h (int (Suc m)) lines nid' = (rest, nid'')"
    by (cases "decompose_lines ux nc h (int (Suc m)) lines nid'")
  have l1: "map (\<lambda>c. (symbol c, input_coord c)) chars =
      map (\<lambda>(k, s). ([s], Coord (int k + 1) (h - int m)))
        (filter (\<lambda>(k, s). s \<noteq> SPACE) (enumerate 0 line))"
    using decompose_line_closed_form [of ux nc h "int m" 0 line nid] d1 by simp
  have l2: "map (\<lambda>c. (symbol c, input_coord c)) rest =
      concat (map (\<lambda>(r, line).
       map (\<lambda>(k, s). ([s], Coord (int k + 1) (h - int r)))
         (filter (\<lambda>(k, s). s \<noteq> SPACE) (enumerate 0 line)))
       (enumerate (Suc m) lines))"
    using Cons.IH [of "Suc m" nid'] d2 by simp
  show ?case
    using d1 d2 l1 l2 by (simp add: shift del: of_nat_Suc)
qed

lemma decompose_lines_ids:
  "map character_id (fst (decompose_lines ux nc h r lines nid)) =
     map (\<lambda>k. nid + int k) [0..<length (fst (decompose_lines ux nc h r lines nid))] \<and>
   snd (decompose_lines ux nc h r lines nid) =
     nid + int (length (fst (decompose_lines ux nc h r lines nid)))"
proof (induction lines arbitrary: r nid)
  case Nil
  then show ?case by simp
next
  case (Cons line lines)
  obtain chars nid' where d1: "decompose_line ux nc h r 0 line nid = (chars, nid')"
    by (cases "decompose_line ux nc h r 0 line nid")
  obtain rest nid'' where d2: "decompose_lines ux nc h (r + 1) lines nid' = (rest, nid'')"
    by (cases "decompose_lines ux nc h (r + 1) lines nid'")
  have l1: "map character_id chars = map (\<lambda>k. nid + int k) [0..<length chars]"
    "nid' = nid + int (length chars)"
    using decompose_line_ids [of ux nc h r 0 line nid] d1 by simp_all
  have l2: "map character_id rest = map (\<lambda>k. nid' + int k) [0..<length rest]"
    "nid'' = nid' + int (length rest)"
    using Cons.IH [of "r + 1" nid'] d2 by simp_all
  have "[0..<length chars + length rest] =
        [0..<length chars] @ [length chars..<length chars + length rest]"
    by (rule upt_add_eq_append) simp
  moreover have "map (\<lambda>k. nid + int k) [length chars..<length chars + length rest] =
        map (\<lambda>k. nid + int (length chars + k)) [0..<length rest]"
    by (rule upt_shift [symmetric])
  ultimately have "map (\<lambda>k. nid + int k) [0..<length chars + length rest] =
        map (\<lambda>k. nid + int k) [0..<length chars] @ map (\<lambda>k. nid' + int k) [0..<length rest]"
    using l1(2) by (simp add: add.assoc)
  then show ?case
    using d1 d2 l1 l2 by simp
qed

lemma decompose_line_member:
  "c \<in> set (fst (decompose_line ux nc h r col line nid)) \<Longrightarrow>
   col < column (input_coord c) \<and> row (input_coord c) = h - r"
proof (induction line arbitrary: col nid)
  case Nil
  then show ?case by simp
next
  case (Cons s line)
  show ?case
  proof (cases "s = SPACE")
    case True
    then have "c \<in> set (fst (decompose_line ux nc h r (col + 1) line nid))"
      using Cons.prems by simp
    then show ?thesis
      using Cons.IH [of "col + 1" nid] by simp
  next
    case False
    obtain rest nid' where d: "decompose_line ux nc h r (col + 1) line (nid + 1) = (rest, nid')"
      by (cases "decompose_line ux nc h r (col + 1) line (nid + 1)")
    have "input_coord c = Coord (col + 1) (h - r) \<or> c \<in> set rest"
      using Cons.prems False d by (auto simp: EffectCharacter_init_def)
    then show ?thesis
    proof
      assume "input_coord c = Coord (col + 1) (h - r)"
      then show ?thesis by simp
    next
      assume "c \<in> set rest"
      then show ?thesis
        using Cons.IH [of "col + 1" "nid + 1"] d by simp
    qed
  qed
qed

lemma decompose_lines_member:
  "c \<in> set (fst (decompose_lines ux nc h r lines nid)) \<Longrightarrow>
   0 < column (input_coord c) \<and> h - r - int (length lines) < row (input_coord c) \<and>
   row (input_coord c) \<le> h - r"
proof (induction lines arbitrary: r nid)
  case Nil
  then show ?case by simp
next
  case (Cons line lines)
  obtain chars nid' where d1: "decompose_line ux nc h r 0 line nid = (chars, nid')"
    by (cases "decompose_line ux nc h r 0 line nid")
  obtain rest nid'' where d2: "decompose_lines ux nc h (r + 1) lines nid' = (rest, nid'')"
    by (cases "decompose_lines ux nc h (r + 1) lines nid'")
  have "c \<in> set chars \<or> c \<in> set rest"
    using Cons.prems d1 d2 by simp
  then show ?case
  proof
    assume "c \<in> set chars"
    then show ?thesis
      using decompose_line_member [of c ux nc h r 0 line nid] d1 by simp
  next
    assume "c \<in> set rest"
    then show ?thesis
      using Cons.IH [of "r + 1" nid'] d2 by simp
  qed
qed

lemma decompose_lines_member_id:
  assumes "c \<in> set (fst (decompose_lines ux nc h r lines nid))"
  shows "nid \<le> character_id c \<and> character_id c < snd (decompose_lines ux nc h r lines nid)"
proof -
  let ?chars = "fst (decompose_lines ux nc h r lines nid)"
  from assms obtain i where i: "i < length ?chars" "?chars ! i = c"
    unfolding in_set_conv_nth by blast
  have "character_id c = map character_id ?chars ! i"
    using i by simp
  also have "\<dots> = map (\<lambda>k. nid + int k) [0..<length ?chars] ! i"
    using conjunct1 [OF decompose_lines_ids [of ux nc h r lines nid]] by (rule arg_cong)
  also have "\<dots> = nid + int i"
    using i(1) by simp
  finally have "character_id c = nid + int i" .
  moreover have "snd (decompose_lines ux nc h r lines nid) = nid + int (length ?chars)"
    using decompose_lines_ids [of ux nc h r lines nid] by (rule conjunct2)
  ultimately show ?thesis
    using i(1) by simp
qed

lemma str_AB_C: "str_of ''AB\<newline>C'' = [65, 66, 10, 67]"
  by (simp add: str_of_def)

lemma splitlines_AB_C: "splitlines [65, 66, 10, 67] = [[65, 66], [67]]"
  by (simp add: splitlines_def is_linebreak_def)

lemma strip_AB_C: "strip [65, 66, 10, 67] = [65, 66, 10, 67]"
  by (simp add: strip_def isspace_def)

text \<open>
  C6: the characters \<^verbatim>\<open>_decompose_input\<close> returns are, in order, one for each glyph
  other than a space of the formatted lines, the glyph at index k of the line at index r
  placed at column k + 1 and row (number of lines) - r, with consecutive ids from the
  next free one; a space yields no character. With wrapping off and a width of at least
  2 the input "AB\<newline>C" gives exactly A at (1,2), B at (2,2) and C at (1,1).
\<close>

theorem decompose_input_positions:
  "(decompose_input ux nc t = Some (chars, t') \<longrightarrow>
      (\<exists>lines.
         format_lines (wrap_text (config t)) (width t)
           (splitlines (if strip (input_data t) = [] then NO_INPUT else input_data t)) = Some lines \<and>
         map (\<lambda>c. (symbol c, input_coord c)) chars =
           concat (map (\<lambda>(r, line).
               map (\<lambda>(k, s). ([s], Coord (int k + 1) (int (length lines) - int r)))
                 (filter (\<lambda>(k, s). s \<noteq> SPACE) (enumerate 0 line)))
             (enumerate 0 lines)) \<and>
         map character_id chars = map (\<lambda>k. next_character_id t + int k) [0..<length chars] \<and>
         next_character_id t' = next_character_id t + int (length chars))) \<and>
   (2 \<le> w \<and> \<not> wrap_text cfg \<longrightarrow>
      (\<exists>t'. decompose_input ux nc (Terminal_unassigned cfg (str_of ''AB\<newline>C'') detected w h) =
         Some ([(EffectCharacter_init 0 (str_of ''A'') 1 2)
                  \<lparr>animation_use_xterm_colors := ux, animation_no_color := nc\<rparr>,
                (EffectCharacter_init 1 (str_of ''B'') 2 2)
                  \<lparr>animation_use_xterm_colors := ux, animation_no_color := nc\<rparr>,
                (EffectCharacter_init 2 (str_of ''C'') 1 1)
                  \<lparr>animation_use_xterm_colors := ux, animation_no_color := nc\<rparr>], t')))"
proof (intro conjI impI)
  assume d: "decompose_input ux nc t = Some (chars, t')"
  let ?t1 = "if strip (input_data t) = [] then t\<lparr>input_data := NO_INPUT\<rparr> else t"
  let ?data = "if strip (input_data t) = [] then NO_INPUT else input_data t"
  have data: "input_data ?t1 = ?data" "wrap_text (config ?t1) = wrap_text (config t)"
    "width ?t1 = width t" "next_character_id ?t1 = next_character_id t"
    by simp_all
  from d obtain lines where
    f: "format_lines (wrap_text (config t)) (width t) (splitlines ?data) = Some lines"
    unfolding decompose_input_def Let_def data by (auto split: option.splits)
  let ?r = "decompose_lines ux nc (int (length lines)) 0 lines (next_character_id t)"
  from d f have r: "chars = fst ?r" "t' = ?t1\<lparr>next_character_id := snd ?r\<rparr>"
    unfolding decompose_input_def Let_def data by (auto split: prod.splits)
  have "map (\<lambda>c. (symbol c, input_coord c)) chars =
           concat (map (\<lambda>(r, line).
               map (\<lambda>(k, s). ([s], Coord (int k + 1) (int (length lines) - int r)))
                 (filter (\<lambda>(k, s). s \<noteq> SPACE) (enumerate 0 line)))
             (enumerate 0 lines))"
    using decompose_lines_closed_form [of ux nc "int (length lines)" 0 lines "next_character_id t"]
      r(1) by simp
  moreover have "map character_id chars =
      map (\<lambda>k. next_character_id t + int k) [0..<length chars]"
    using conjunct1 [OF decompose_lines_ids [of ux nc "int (length lines)" 0 lines "next_character_id t"]]
    unfolding r(1) .
  moreover have "next_character_id t' = next_character_id t + int (length chars)"
    using conjunct2 [OF decompose_lines_ids [of ux nc "int (length lines)" 0 lines "next_character_id t"]]
      r by simp
  ultimately show "\<exists>lines.
         format_lines (wrap_text (config t)) (width t)
           (splitlines (if strip (input_data t) = [] then NO_INPUT else input_data t)) = Some lines \<and>
         map (\<lambda>c. (symbol c, input_coord c)) chars =
           concat (map (\<lambda>(r, line).
               map (\<lambda>(k, s). ([s], Coord (int k + 1) (int (length lines) - int r)))
                 (filter (\<lambda>(k, s). s \<noteq> SPACE) (enumerate 0 line)))
             (enumerate 0 lines)) \<and>
         map character_id chars = map (\<lambda>k. next_character_id t + int k) [0..<length chars] \<and>
         next_character_id t' = next_character_id t + int (length chars)"
    using f by blast
next
  assume w: "2 \<le> w \<and> \<not> wrap_text cfg"
  then have "Suc (Suc 0) \<le> nat w" "Suc 0 \<le> nat w"
    by linarith+
  then have "slice_to w [65, 66 :: nat] = [65, 66]" "slice_to w [67 :: nat] = [67]"
    using w by (simp_all add: slice_to_def)
  then show "\<exists>t'. decompose_input ux nc (Terminal_unassigned cfg (str_of ''AB\<newline>C'') detected w h) =
         Some ([(EffectCharacter_init 0 (str_of ''A'') 1 2)
                  \<lparr>animation_use_xterm_colors := ux, animation_no_color := nc\<rparr>,
                (EffectCharacter_init 1 (str_of ''B'') 2 2)
                  \<lparr>animation_use_xterm_colors := ux, animation_no_color := nc\<rparr>,
                (EffectCharacter_init 2 (str_of ''C'') 1 1)
                  \<lparr>animation_use_xterm_colors := ux, animation_no_color := nc\<rparr>], t')"
    using w
    by (simp add: decompose_input_def Terminal_unassigned_def str_AB_C strip_AB_C splitlines_AB_C
        format_lines_def SPACE_def str_of_def)
qed

text \<open>
  C6 at the input "A B" under the default configuration and a width of 80: two
  characters, none for the space between them.
\<close>

theorem decompose_input_positions_witness:
  "decompose_input False False
     (Terminal_unassigned TerminalConfig_default (str_of ''A B'') (80, 24) 80 24) =
   Some ([EffectCharacter_init 0 [65] 1 1, EffectCharacter_init 1 [66] 3 1],
         (Terminal_unassigned TerminalConfig_default (str_of ''A B'') (80, 24) 80 24)
           \<lparr>next_character_id := 2\<rparr>) \<and>
   format_lines False 80 (splitlines (str_of ''A B'')) = Some [[65, 32, 66]] \<and>
   (2 :: int) \<le> 80 \<and> \<not> wrap_text TerminalConfig_default \<and>
   (\<exists>t'. decompose_input False False
      (Terminal_unassigned TerminalConfig_default (str_of ''AB\<newline>C'') (80, 24) 80 24) =
      Some ([EffectCharacter_init 0 [65] 1 2, EffectCharacter_init 1 [66] 2 2,
             EffectCharacter_init 2 [67] 1 1], t'))"
  using decompose_input_positions [of False False
      "Terminal_unassigned TerminalConfig_default (str_of ''A B'') (80, 24) 80 24"
      "[EffectCharacter_init 0 [65] 1 1, EffectCharacter_init 1 [66] 3 1]"
      "(Terminal_unassigned TerminalConfig_default (str_of ''A B'') (80, 24) 80 24)
         \<lparr>next_character_id := 2\<rparr>"
      80 TerminalConfig_default "(80, 24)" 24]
  by (simp add: decompose_input_def Terminal_unassigned_def TerminalConfig_default_def
      str_of_def strip_def isspace_def splitlines_def is_linebreak_def format_lines_def
      slice_to_def SPACE_def EffectCharacter_init_def)

subsection \<open>Rendering a frame\<close>

lemma join_Cons: "join sep (x # xs) = (if xs = [] then x else x @ sep @ join sep xs)"
  by (cases xs) simp_all

lemma join_empty_replicate: "join [] (replicate n [c]) = replicate n c"
  by (induction n) (simp_all add: join_Cons replicate_app_Cons_same)

lemma update_terminal_state_blank:
  assumes "visible_characters t = []"
  shows "terminal_state (update_terminal_state t) =
         replicate (nat (top_row (canvas t))) (replicate (nat (right (canvas t))) SPACE)"
  using assms by (simp add: update_terminal_state_def Let_def join_empty_replicate)

lemma update_terminal_state_canvas: "canvas (update_terminal_state t) = canvas t"
  by (simp add: update_terminal_state_def Let_def)

text \<open>
  C7: when no character is visible, \<^verbatim>\<open>get_formatted_output_string\<close> leaves in
  \<^verbatim>\<open>terminal_state\<close> one row per canvas row, each of \<^verbatim>\<open>canvas.right\<close> spaces, and
  returns these rows joined by newlines; whatever is visible, the string is the join
  of the rows in reverse order, the top row first. (The row and column counts are those
  of \<^verbatim>\<open>range\<close>: none for a bound below 1.)
\<close>

theorem formatted_output_blank:
  "(visible_characters t = [] \<longrightarrow>
      terminal_state (snd (get_formatted_output_string t)) =
        replicate (nat (top_row (canvas t))) (replicate (nat (right (canvas t))) SPACE) \<and>
      fst (get_formatted_output_string t) =
        join [NEWLINE]
          (replicate (nat (top_row (canvas t))) (replicate (nat (right (canvas t))) SPACE)) \<and>
      (0 \<le> top_row (canvas t) \<longrightarrow>
         int (length (terminal_state (snd (get_formatted_output_string t)))) = top_row (canvas t)) \<and>
      (0 \<le> right (canvas t) \<longrightarrow>
         (\<forall>line \<in> set (terminal_state (snd (get_formatted_output_string t))).
            int (length line) = right (canvas t) \<and> (\<forall>c \<in> set line. c = SPACE)))) \<and>
   fst (get_formatted_output_string t) =
     join [NEWLINE] (rev (terminal_state (snd (get_formatted_output_string t))))"
  by (simp add: get_formatted_output_string_def Let_def update_terminal_state_blank)

subsection \<open>Sorted and grouped views\<close>

lemma pop_alternating_total:
  "length idx = length xs \<Longrightarrow> \<exists>r. pop_alternating idx xs = Inr r \<and> length r = length xs"
proof (induction idx arbitrary: xs)
  case Nil
  then show ?case by simp
next
  case (Cons i idx)
  then obtain y ys where xs: "xs = y # ys"
    by (cases xs) auto
  show ?case
  proof (cases "i mod 2 = 0")
    case True
    obtain r where "pop_alternating idx ys = Inr r" "length r = length ys"
      using Cons.IH [of ys] Cons.prems xs by auto
    then show ?thesis
      using True xs by simp
  next
    case False
    have "length idx = length (butlast xs)"
      using Cons.prems by simp
    then obtain r where "pop_alternating idx (butlast xs) = Inr r" "length r = length (butlast xs)"
      using Cons.IH [of "butlast xs"] by auto
    then show ?thesis
      using False xs by simp
  qed
qed

lemma pop_alternating_two_steps:
  assumes "even i" "xs = x # mid @ [z]"
  shows "pop_alternating (i # Suc i # idx) xs =
         (case pop_alternating idx mid of Inl e \<Rightarrow> Inl e | Inr r \<Rightarrow> Inr (x # z # r))"
proof -
  have "i mod 2 = 0" "Suc i mod 2 \<noteq> 0"
    using assms(1) by presburger+
  then show ?thesis
    using assms(2) by (simp add: butlast_append split: sum.splits)
qed

lemma pop_alternating_nth:
  "even i \<Longrightarrow> pop_alternating [i..<i + length xs] xs = Inr r \<Longrightarrow>
   (2 * k < length xs \<longrightarrow> r ! (2 * k) = xs ! k) \<and>
   (2 * k + 1 < length xs \<longrightarrow> r ! (2 * k + 1) = xs ! (length xs - 1 - k))"
proof (induction k arbitrary: i xs r)
  case 0
  show ?case
  proof (cases xs)
    case Nil
    then show ?thesis by simp
  next
    case (Cons x ys)
    note xs = Cons
    show ?thesis
    proof (cases ys rule: rev_cases)
      case Nil
      then have one: "xs = [x]"
        using xs by simp
      then have "pop_alternating [i..<i + length xs] xs = Inr [x]"
        using "0.prems"(1) by (simp add: upt_rec)
      then have "r = [x]"
        using "0.prems"(2) by simp
      then show ?thesis
        using one by simp
    next
      case (snoc mid z)
      have "[i..<i + length xs] = i # Suc i # [Suc (Suc i)..<i + length xs]"
        using xs snoc by (simp add: upt_rec)
      then have "pop_alternating [i..<i + length xs] xs =
          (case pop_alternating [Suc (Suc i)..<i + length xs] mid of
             Inl e \<Rightarrow> Inl e | Inr r \<Rightarrow> Inr (x # z # r))"
        using pop_alternating_two_steps [OF "0.prems"(1), of xs x mid z] xs snoc by simp
      then show ?thesis
        using 0(2) xs snoc by (auto split: sum.splits simp: nth_append)
    qed
  qed
next
  case (Suc k)
  show ?case
  proof (cases "2 * Suc k < length xs")
    case False
    then show ?thesis by simp
  next
    case True
    then obtain x ys where xs: "xs = x # ys"
      by (cases xs) auto
    then obtain mid z where ys: "ys = mid @ [z]"
      using True by (cases ys rule: rev_cases) auto
    have len: "length xs = length mid + 2"
      using xs ys by simp
    have "[i..<i + length xs] = i # Suc i # [Suc (Suc i)..<Suc (Suc i) + length mid]"
      using len by (simp add: upt_rec)
    then have unroll: "pop_alternating [i..<i + length xs] xs =
        (case pop_alternating [Suc (Suc i)..<Suc (Suc i) + length mid] mid of
           Inl e \<Rightarrow> Inl e | Inr r \<Rightarrow> Inr (x # z # r))"
      using pop_alternating_two_steps [OF Suc.prems(1), of xs x mid z] xs ys by simp
    then obtain r' where r': "pop_alternating [Suc (Suc i)..<Suc (Suc i) + length mid] mid = Inr r'"
      "r = x # z # r'"
      using Suc.prems(2) by (auto split: sum.splits)
    have ih: "(2 * k < length mid \<longrightarrow> r' ! (2 * k) = mid ! k) \<and>
      (2 * k + 1 < length mid \<longrightarrow> r' ! (2 * k + 1) = mid ! (length mid - 1 - k))"
      using Suc.IH [of "Suc (Suc i)" mid r'] Suc.prems(1) r'(1) by simp
    have a: "r ! (2 * Suc k) = xs ! Suc k"
      using ih True len r'(2) xs ys by (simp add: nth_append)
    have b: "2 * Suc k + 1 < length xs \<longrightarrow> r ! (2 * Suc k + 1) = xs ! (length xs - 1 - Suc k)"
    proof
      assume lt: "2 * Suc k + 1 < length xs"
      then have "r' ! (2 * k + 1) = mid ! (length mid - 1 - k)"
        using ih len by simp
      moreover have "length xs - 1 - Suc k = Suc (length mid - 1 - k)"
        using lt len by simp
      moreover have "length mid - 1 - k < length mid"
        using lt len by simp
      ultimately show "r ! (2 * Suc k + 1) = xs ! (length xs - 1 - Suc k)"
        using r'(2) xs ys by (simp add: nth_append)
    qed
    show ?thesis
      using a b by simp
  qed
qed

text \<open>
  C8: with \<open>base\<close> the default ordering (what TOP_TO_BOTTOM_LEFT_TO_RIGHT returns), the
  OUTSIDE_ROW_TO_MIDDLE sort returns a list \<open>r\<close> that takes alternately from the front and
  from the back of \<open>base\<close>: position 2k holds element k, position 2k + 1 holds element k
  from the end; so [a, b, c, d] gives [a, d, b, c]. MIDDLE_ROW_TO_OUTSIDE returns the
  reverse of \<open>r\<close>.
\<close>

theorem get_characters_outside_row_to_middle:
  "\<exists>base r.
     get_characters input_chars fill_chars added_chars TOP_TO_BOTTOM_LEFT_TO_RIGHT rnd t = Inr base \<and>
     get_characters input_chars fill_chars added_chars OUTSIDE_ROW_TO_MIDDLE rnd t = Inr r \<and>
     get_characters input_chars fill_chars added_chars MIDDLE_ROW_TO_OUTSIDE rnd t = Inr (rev r) \<and>
     length r = length base \<and>
     (\<forall>k. (2 * k < length base \<longrightarrow> r ! (2 * k) = base ! k) \<and>
          (2 * k + 1 < length base \<longrightarrow> r ! (2 * k + 1) = base ! (length base - 1 - k))) \<and>
     (\<forall>c1 c2 c3 c4. base = [c1, c2, c3, c4] \<longrightarrow> r = [c1, c4, c2, c3])"
proof -
  let ?base = "sort_key (\<lambda>c. (- row (input_coord c), column (input_coord c)))
      (select_characters t input_chars fill_chars added_chars)"
  obtain r where r: "pop_alternating [0..<length ?base] ?base = Inr r" "length r = length ?base"
    using pop_alternating_total [of "[0..<length ?base]" ?base] by auto
  have nth: "(2 * k < length ?base \<longrightarrow> r ! (2 * k) = ?base ! k) \<and>
      (2 * k + 1 < length ?base \<longrightarrow> r ! (2 * k + 1) = ?base ! (length ?base - 1 - k))" for k
    using pop_alternating_nth [of 0 ?base r k] r(1) by simp
  have four: "r = [c1, c4, c2, c3]" if "?base = [c1, c2, c3, c4]" for c1 c2 c3 c4
    using r(1) unfolding that by (simp add: upt_rec)
  have "get_characters input_chars fill_chars added_chars TOP_TO_BOTTOM_LEFT_TO_RIGHT rnd t
      = Inr ?base"
    by (simp add: get_characters_def Let_def)
  moreover have "get_characters input_chars fill_chars added_chars OUTSIDE_ROW_TO_MIDDLE rnd t
      = Inr r"
    using r(1) by (simp add: get_characters_def Let_def)
  moreover have "get_characters input_chars fill_chars added_chars MIDDLE_ROW_TO_OUTSIDE rnd t
      = Inr (rev r)"
    using r(1) by (simp add: get_characters_def Let_def)
  ultimately show ?thesis
    using r(2) nth four by blast
qed

lemma lookup_groups_total:
  "set ks \<subseteq> fst ` set dm \<Longrightarrow> \<exists>groups. lookup_groups dm ks = Inr groups"
proof (induction ks)
  case Nil
  then show ?case by simp
next
  case (Cons k ks)
  then obtain groups where "lookup_groups dm ks = Inr groups"
    by auto
  moreover obtain g where "map_of dm k = Some g"
    using Cons.prems by (cases "map_of dm k") (auto simp: map_of_eq_None_iff)
  ultimately show ?case by simp
qed

lemma set_sorted_keys: "set (sorted_keys ks reverse) = set ks"
  by (simp add: sorted_keys_def)

text \<open>
  C9: \<^verbatim>\<open>get_characters_grouped\<close> raises exactly when its argument is no member of
  \<^verbatim>\<open>CharacterGroup\<close>, and then it raises \<^verbatim>\<open>ValueError\<close>; for each of the ten members it
  returns a list of groups; in every case the object is as it was.
\<close>

theorem get_characters_grouped_raises_iff:
  "((\<exists>e. fst (get_characters_grouped grouping input_chars fill_chars added_chars t) = Inl e)
      \<longleftrightarrow> grouping = NotAMember) \<and>
   (grouping = NotAMember \<longrightarrow>
      fst (get_characters_grouped grouping input_chars fill_chars added_chars t) = Inl ValueError) \<and>
   (\<forall>g. grouping = Member g \<longrightarrow>
      (\<exists>groups. fst (get_characters_grouped grouping input_chars fill_chars added_chars t)
         = Inr groups)) \<and>
   snd (get_characters_grouped grouping input_chars fill_chars added_chars t) = t"
proof -
  let ?all = "sort_key (\<lambda>c. (row (input_coord c), column (input_coord c)))
      (select_characters t input_chars fill_chars added_chars)"
  let ?dm = "build_distance_map (canvas t) ?all []"
  have d: "\<exists>groups. lookup_groups ?dm (sorted_keys (map fst ?dm) b) = Inr groups" for b
    by (rule lookup_groups_total) (simp add: set_sorted_keys)
  have unchanged: "snd (get_characters_grouped grouping input_chars fill_chars added_chars t) = t"
    by (simp add: get_characters_grouped_def Let_def)
  have bad: "fst (get_characters_grouped NotAMember input_chars fill_chars added_chars t)
      = Inl ValueError"
    by (simp add: get_characters_grouped_def Let_def)
  have good: "\<exists>groups. fst (get_characters_grouped (Member g) input_chars fill_chars added_chars t)
      = Inr groups" for g
    using d [of True] d [of False]
    by (cases g) (simp_all add: get_characters_grouped_def Let_def)
  show ?thesis
  proof (cases grouping)
    case (Member g)
    then show ?thesis
      using good [of g] unchanged by auto
  next
    case NotAMember
    then show ?thesis
      using bad unchanged by simp
  qed
qed

subsection \<open>A constructed terminal\<close>

text \<open>
  The terminal built from "AB\<newline>C" under the default configuration on an 80 by 24
  terminal: three input characters, one fill character, a canvas of two rows and two
  columns.
\<close>

lemma Terminal_init_example:
  "\<exists>t. Terminal_init (str_of ''AB\<newline>C'') TerminalConfig_default (80, 24) = Some (Inr t) \<and>
     input_characters t = [EffectCharacter_init 0 [65] 1 2, EffectCharacter_init 1 [66] 2 2,
                           EffectCharacter_init 2 [67] 1 1] \<and>
     fill_characters t = [EffectCharacter_init 3 [32] 2 1] \<and>
     added_characters t = [] \<and> visible_characters t = [] \<and>
     canvas t = Canvas_default 2 2 \<and> next_character_id t = 4 \<and>
     width t = 80 \<and> height t = 24 \<and> input_width t = 2 \<and> input_height t = 2 \<and>
     config t = TerminalConfig_default"
  by (simp add: Terminal_init_def init_input_data_def init_dimensions_def
      TerminalConfig_default_def str_AB_C replace_char_def TAB_def SPACE_def
      Terminal_unassigned_def decompose_input_def strip_AB_C splitlines_AB_C format_lines_def
      slice_to_def Let_def EffectCharacter_init_def Canvas_default_def Canvas_init_def
      make_fill_characters_def py_range_def upto.simps update_terminal_state_def)

text \<open>C7 on that terminal: two rows of two spaces.\<close>

theorem formatted_output_blank_witness:
  "\<exists>t. Terminal_init (str_of ''AB\<newline>C'') TerminalConfig_default (80, 24) = Some (Inr t) \<and>
     visible_characters t = [] \<and>
     fst (get_formatted_output_string t) = str_of ''  \<newline>  ''"
proof -
  obtain t where t: "Terminal_init (str_of ''AB\<newline>C'') TerminalConfig_default (80, 24) = Some (Inr t)"
    "visible_characters t = []" "canvas t = Canvas_default 2 2"
    using Terminal_init_example by blast
  have two: "nat 2 = Suc (Suc 0)"
    by simp
  have dims: "top_row (canvas t) = 2" "right (canvas t) = 2"
    using t(3) by (simp_all add: Canvas_default_def Canvas_init_def)
  have "fst (get_formatted_output_string t) =
        join [NEWLINE]
          (replicate (nat (top_row (canvas t))) (replicate (nat (right (canvas t))) SPACE))"
    using formatted_output_blank [of t] t(2) by blast
  then have "fst (get_formatted_output_string t) = str_of ''  \<newline>  ''"
    unfolding dims two by (simp add: SPACE_def NEWLINE_def str_of_def)
  then show ?thesis
    using t(1,2) by blast
qed

text \<open>
  C8 on that terminal, input and fill characters requested: the base ordering A, B, C,
  fill becomes A, fill, B, C.
\<close>

theorem get_characters_outside_row_to_middle_witness:
  "\<exists>t. Terminal_init (str_of ''AB\<newline>C'') TerminalConfig_default (80, 24) = Some (Inr t) \<and>
     get_characters True True False TOP_TO_BOTTOM_LEFT_TO_RIGHT (\<lambda>k. 0) t =
       Inr [EffectCharacter_init 0 [65] 1 2, EffectCharacter_init 1 [66] 2 2,
            EffectCharacter_init 2 [67] 1 1, EffectCharacter_init 3 [32] 2 1] \<and>
     get_characters True True False OUTSIDE_ROW_TO_MIDDLE (\<lambda>k. 0) t =
       Inr [EffectCharacter_init 0 [65] 1 2, EffectCharacter_init 3 [32] 2 1,
            EffectCharacter_init 1 [66] 2 2, EffectCharacter_init 2 [67] 1 1] \<and>
     get_characters True True False MIDDLE_ROW_TO_OUTSIDE (\<lambda>k. 0) t =
       Inr [EffectCharacter_init 2 [67] 1 1, EffectCharacter_init 1 [66] 2 2,
            EffectCharacter_init 3 [32] 2 1, EffectCharacter_init 0 [65] 1 2]"
proof -
  obtain t where t: "Terminal_init (str_of ''AB\<newline>C'') TerminalConfig_default (80, 24) = Some (Inr t)"
    "input_characters t = [EffectCharacter_init 0 [65] 1 2, EffectCharacter_init 1 [66] 2 2,
                           EffectCharacter_init 2 [67] 1 1]"
    "fill_characters t = [EffectCharacter_init 3 [32] 2 1]"
    using Terminal_init_example by blast
  have base: "get_characters True True False TOP_TO_BOTTOM_LEFT_TO_RIGHT (\<lambda>k. 0) t =
       Inr [EffectCharacter_init 0 [65] 1 2, EffectCharacter_init 1 [66] 2 2,
            EffectCharacter_init 2 [67] 1 1, EffectCharacter_init 3 [32] 2 1]"
    using t(2,3) by (simp add: get_characters_def select_characters_def EffectCharacter_init_def)
  show ?thesis
    using get_characters_outside_row_to_middle [of True True False "\<lambda>k. 0" t] base t(1)
    by auto
qed

text \<open>C9 on that terminal: a non-member raises, ROW_TOP_TO_BOTTOM returns two rows.\<close>

theorem get_characters_grouped_raises_iff_witness:
  "\<exists>t. Terminal_init (str_of ''AB\<newline>C'') TerminalConfig_default (80, 24) = Some (Inr t) \<and>
     get_characters_grouped NotAMember True False False t = (Inl ValueError, t) \<and>
     get_characters_grouped (Member ROW_TOP_TO_BOTTOM) True False False t =
       (Inr [[EffectCharacter_init 0 [65] 1 2, EffectCharacter_init 1 [66] 2 2],
             [EffectCharacter_init 2 [67] 1 1]], t)"
proof -
  obtain t where t: "Terminal_init (str_of ''AB\<newline>C'') TerminalConfig_default (80, 24) = Some (Inr t)"
    "input_characters t = [EffectCharacter_init 0 [65] 1 2, EffectCharacter_init 1 [66] 2 2,
                           EffectCharacter_init 2 [67] 1 1]"
    "canvas t = Canvas_default 2 2"
    using Terminal_init_example by blast
  have rows: "fst (get_characters_grouped (Member ROW_TOP_TO_BOTTOM) True False False t) =
       Inr [[EffectCharacter_init 0 [65] 1 2, EffectCharacter_init 1 [66] 2 2],
             [EffectCharacter_init 2 [67] 1 1]]"
    using t(2,3)
    by (simp add: get_characters_grouped_def select_characters_def EffectCharacter_init_def
        Canvas_default_def Canvas_init_def py_range_def upto.simps)
  have "get_characters_grouped NotAMember True False False t = (Inl ValueError, t)"
    using get_characters_grouped_raises_iff [of NotAMember True False False t]
    by (simp add: prod_eq_iff)
  moreover have "get_characters_grouped (Member ROW_TOP_TO_BOTTOM) True False False t =
       (Inr [[EffectCharacter_init 0 [65] 1 2, EffectCharacter_init 1 [66] 2 2],
             [EffectCharacter_init 2 [67] 1 1]], t)"
    using get_characters_grouped_raises_iff [of "Member ROW_TOP_TO_BOTTOM" True False False t] rows
    by (simp add: prod_eq_iff)
  ultimately show ?thesis
    using t(1) by blast
qed

subsection \<open>Construction of a terminal\<close>

text \<open>
  What the loops of \<^verbatim>\<open>_make_fill_characters\<close> keep: ids only grow, a fill character
  is either an earlier one or has an id between the old and the new next id, an entry of
  the dictionary is an old entry or a fill character, no entry is lost, and every cell
  visited has an entry afterwards.
\<close>

lemma fill_columns_next_id:
  "fill_columns cfg rw cols (fills, m, nid) = (fills', m', nid') \<Longrightarrow> nid \<le> nid'"
proof (induction cols arbitrary: fills m nid)
  case Nil
  then show ?case by simp
next
  case (Cons col cols)
  show ?case
  proof (cases "m (Coord col rw) = None")
    case True
    then obtain fc where
      "fill_columns cfg rw cols (fills @ [fc], m(Coord col rw \<mapsto> fc), nid + 1) = (fills', m', nid')"
      using Cons.prems by (simp add: Let_def)
    then have "nid + 1 \<le> nid'"
      by (rule Cons.IH)
    then show ?thesis
      by simp
  next
    case False
    have "fill_columns cfg rw cols (fills, m, nid) = (fills', m', nid')"
      using Cons.prems False by (simp add: Let_def)
    then show ?thesis
      by (rule Cons.IH)
  qed
qed

lemma fill_columns_fills:
  "fill_columns cfg rw cols (fills, m, nid) = (fills', m', nid') \<Longrightarrow>
   set fills \<subseteq> set fills' \<and>
   (\<forall>c \<in> set fills'. c \<in> set fills \<or> (nid \<le> character_id c \<and> character_id c < nid'))"
proof (induction cols arbitrary: fills m nid)
  case Nil
  then show ?case by simp
next
  case (Cons col cols)
  show ?case
  proof (cases "m (Coord col rw) = None")
    case True
    define fc where "fc = (EffectCharacter_init nid [SPACE] col rw)
               \<lparr>animation_use_xterm_colors := xterm_colors cfg,
                animation_no_color := no_color cfg\<rparr>"
    have rec: "fill_columns cfg rw cols (fills @ [fc], m(Coord col rw \<mapsto> fc), nid + 1) = (fills', m', nid')"
      using Cons.prems True by (simp add: Let_def fc_def)
    have id: "character_id fc = nid"
      by (simp add: fc_def EffectCharacter_init_def)
    have "nid + 1 \<le> nid'"
      using fill_columns_next_id [OF rec] .
    then show ?thesis
      using Cons.IH [OF rec] id by auto
  next
    case False
    have "fill_columns cfg rw cols (fills, m, nid) = (fills', m', nid')"
      using Cons.prems False by (simp add: Let_def)
    then show ?thesis
      by (rule Cons.IH)
  qed
qed

lemma fill_columns_map:
  "fill_columns cfg rw cols (fills, m, nid) = (fills', m', nid') \<Longrightarrow>
   (\<forall>k c. m' k = Some c \<longrightarrow> m k = Some c \<or> c \<in> set fills') \<and>
   (\<forall>k. m k \<noteq> None \<longrightarrow> m' k \<noteq> None) \<and>
   (\<forall>col \<in> set cols. m' (Coord col rw) \<noteq> None)"
proof (induction cols arbitrary: fills m nid)
  case Nil
  then show ?case by simp
next
  case (Cons col cols)
  show ?case
  proof (cases "m (Coord col rw) = None")
    case True
    define fc where "fc = (EffectCharacter_init nid [SPACE] col rw)
               \<lparr>animation_use_xterm_colors := xterm_colors cfg,
                animation_no_color := no_color cfg\<rparr>"
    have rec: "fill_columns cfg rw cols (fills @ [fc], m(Coord col rw \<mapsto> fc), nid + 1) = (fills', m', nid')"
      using Cons.prems True by (simp add: Let_def fc_def)
    have sub: "fc \<in> set fills'"
      using fill_columns_fills [OF rec] by auto
    note ih = Cons.IH [OF rec]
    have a: "\<forall>k c. m' k = Some c \<longrightarrow> m k = Some c \<or> c \<in> set fills'"
    proof (intro allI impI)
      fix k c assume "m' k = Some c"
      then have "(m(Coord col rw \<mapsto> fc)) k = Some c \<or> c \<in> set fills'"
        using ih by blast
      then show "m k = Some c \<or> c \<in> set fills'"
        using sub by (cases "k = Coord col rw") auto
    qed
    have b: "\<forall>k. m k \<noteq> None \<longrightarrow> m' k \<noteq> None"
    proof (intro allI impI)
      fix k assume "m k \<noteq> None"
      then have "(m(Coord col rw \<mapsto> fc)) k \<noteq> None"
        by simp
      then show "m' k \<noteq> None"
        using ih by blast
    qed
    have "(m(Coord col rw \<mapsto> fc)) (Coord col rw) \<noteq> None"
      by simp
    then have "m' (Coord col rw) \<noteq> None"
      using ih by blast
    then have c: "\<forall>col' \<in> set (col # cols). m' (Coord col' rw) \<noteq> None"
      using ih by simp
    show ?thesis
      using a b c by blast
  next
    case False
    have rec: "fill_columns cfg rw cols (fills, m, nid) = (fills', m', nid')"
      using Cons.prems False by (simp add: Let_def)
    note ih = Cons.IH [OF rec]
    have "m' (Coord col rw) \<noteq> None"
      using ih False by blast
    then show ?thesis
      using ih by simp
  qed
qed

lemma fill_rows_inv:
  "fill_rows cfg rws cols (fills, m, nid) = (fills', m', nid') \<Longrightarrow>
   nid \<le> nid' \<and> set fills \<subseteq> set fills' \<and>
   (\<forall>c \<in> set fills'. c \<in> set fills \<or> (nid \<le> character_id c \<and> character_id c < nid')) \<and>
   (\<forall>k c. m' k = Some c \<longrightarrow> m k = Some c \<or> c \<in> set fills') \<and>
   (\<forall>k. m k \<noteq> None \<longrightarrow> m' k \<noteq> None) \<and>
   (\<forall>rw \<in> set rws. \<forall>col \<in> set cols. m' (Coord col rw) \<noteq> None)"
proof (induction rws arbitrary: fills m nid)
  case Nil
  then show ?case by simp
next
  case (Cons rw rws)
  obtain f1 m1 n1 where step: "fill_columns cfg rw cols (fills, m, nid) = (f1, m1, n1)"
    by (cases "fill_columns cfg rw cols (fills, m, nid)") auto
  have rec: "fill_rows cfg rws cols (f1, m1, n1) = (fills', m', nid')"
    using Cons.prems step by simp
  note ih = Cons.IH [OF rec]
  note s1 = fill_columns_next_id [OF step]
  note s2 = fill_columns_fills [OF step]
  note s3 = fill_columns_map [OF step]
  have a: "nid \<le> nid'"
    using ih s1 by linarith
  have b: "set fills \<subseteq> set fills'"
    using ih s2 by blast
  have c: "\<forall>c \<in> set fills'. c \<in> set fills \<or> (nid \<le> character_id c \<and> character_id c < nid')"
  proof
    fix c assume "c \<in> set fills'"
    then consider "c \<in> set f1" | "n1 \<le> character_id c \<and> character_id c < nid'"
      using ih by blast
    then show "c \<in> set fills \<or> (nid \<le> character_id c \<and> character_id c < nid')"
    proof cases
      case 1
      then have "c \<in> set fills \<or> (nid \<le> character_id c \<and> character_id c < n1)"
        using s2 by blast
      moreover have "n1 \<le> nid'"
        using ih by blast
      ultimately show ?thesis by auto
    next
      case 2
      then show ?thesis using s1 by auto
    qed
  qed
  have d: "\<forall>k c. m' k = Some c \<longrightarrow> m k = Some c \<or> c \<in> set fills'"
  proof (intro allI impI)
    fix k c assume "m' k = Some c"
    then have "m1 k = Some c \<or> c \<in> set fills'"
      using ih by blast
    moreover have "set f1 \<subseteq> set fills'"
      using ih by blast
    ultimately show "m k = Some c \<or> c \<in> set fills'"
      using s3 by blast
  qed
  have e: "\<forall>k. m k \<noteq> None \<longrightarrow> m' k \<noteq> None"
    using ih s3 by blast
  have f: "\<forall>rw' \<in> set (rw # rws). \<forall>col \<in> set cols. m' (Coord col rw') \<noteq> None"
  proof (intro ballI)
    fix rw' col assume "rw' \<in> set (rw # rws)" "col \<in> set cols"
    then consider "rw' = rw" | "rw' \<in> set rws" by auto
    then show "m' (Coord col rw') \<noteq> None"
    proof cases
      case 1
      then have "m1 (Coord col rw') \<noteq> None"
        using s3 \<open>col \<in> set cols\<close> by blast
      then show ?thesis using ih by blast
    next
      case 2
      then show ?thesis using ih \<open>col \<in> set cols\<close> by blast
    qed
  qed
  show ?case
    using a b c d e f by blast
qed

text \<open>What \<^verbatim>\<open>_decompose_input\<close> returns, and the constructor taken apart.\<close>

lemma decompose_input_result:
  assumes "decompose_input ux nc t = Some (chars, t')"
  shows "\<exists>lines.
     format_lines (wrap_text (config t)) (width t)
       (splitlines (if strip (input_data t) = [] then NO_INPUT else input_data t)) = Some lines \<and>
     chars = fst (decompose_lines ux nc (int (length lines)) 0 lines (next_character_id t)) \<and>
     t' = (if strip (input_data t) = [] then t\<lparr>input_data := NO_INPUT\<rparr> else t)
            \<lparr>next_character_id :=
               snd (decompose_lines ux nc (int (length lines)) 0 lines (next_character_id t))\<rparr>"
proof -
  let ?t1 = "if strip (input_data t) = [] then t\<lparr>input_data := NO_INPUT\<rparr> else t"
  let ?data = "if strip (input_data t) = [] then NO_INPUT else input_data t"
  have data: "input_data ?t1 = ?data" "wrap_text (config ?t1) = wrap_text (config t)"
    "width ?t1 = width t" "next_character_id ?t1 = next_character_id t"
    by simp_all
  from assms obtain lines where
    f: "format_lines (wrap_text (config t)) (width t) (splitlines ?data) = Some lines"
    unfolding decompose_input_def Let_def data by (auto split: option.splits)
  let ?r = "decompose_lines ux nc (int (length lines)) 0 lines (next_character_id t)"
  from assms f have "chars = fst ?r" "t' = ?t1\<lparr>next_character_id := snd ?r\<rparr>"
    unfolding decompose_input_def Let_def data by (auto split: prod.splits)
  then show ?thesis
    using f by blast
qed

lemma py_max_Inr:
  assumes "py_max xs = Inr m"
  shows "m \<in> set xs \<and> (\<forall>x \<in> set xs. x \<le> m)"
proof (cases xs)
  case Nil
  then show ?thesis using assms by simp
next
  case (Cons x ys)
  then have "fold max ys x = m"
    using assms by simp
  then have "m = Max (set xs)"
    unfolding Cons by (simp only: Max.set_eq_fold)
  moreover have "finite (set xs)" "set xs \<noteq> {}"
    using Cons by simp_all
  ultimately show ?thesis
    using Max_in Max_ge by blast
qed

lemma Terminal_init_inversion:
  assumes "Terminal_init inp cfg det = Some (Inr t)"
  shows "\<exists>w h chars t1 iw ih fills m nid.
    init_dimensions (init_input_data inp cfg) cfg det = Inr (w, h) \<and>
    decompose_input (xterm_colors cfg) (no_color cfg)
      (Terminal_unassigned cfg (init_input_data inp cfg) det w h) = Some (chars, t1) \<and>
    py_max (map (\<lambda>c. column (input_coord c)) chars) = Inr iw \<and>
    py_max (map (\<lambda>c. row (input_coord c)) chars) = Inr ih \<and>
    canvas t = Canvas_default (min (max h 1) ih) iw \<and>
    input_characters t =
      filter (\<lambda>c. row (input_coord c) \<le> min (max h 1) ih \<and> column (input_coord c) \<le> iw) chars \<and>
    fill_rows cfg (py_range 1 (min (max h 1) ih + 1)) (py_range 1 (iw + 1))
      ([], fold (\<lambda>c m. m(input_coord c \<mapsto> c)) (input_characters t) Map.empty,
       next_character_id t1) = (fills, m, nid) \<and>
    fill_characters t = fills \<and> character_by_input_coord t = m \<and> next_character_id t = nid \<and>
    added_characters t = [] \<and> visible_characters t = [] \<and>
    height t = h \<and> width t = w \<and> config t = cfg \<and> input_width t = iw \<and> input_height t = ih"
proof -
  let ?data = "init_input_data inp cfg"
  obtain w h where dims: "init_dimensions ?data cfg det = Inr (w, h)"
    using assms unfolding Terminal_init_def Let_def
    by (cases "init_dimensions ?data cfg det") auto
  let ?t0 = "Terminal_unassigned cfg ?data det w h"
  obtain chars t1 where dec: "decompose_input (xterm_colors cfg) (no_color cfg) ?t0 = Some (chars, t1)"
    using assms dims unfolding Terminal_init_def Let_def
    by (cases "decompose_input (xterm_colors cfg) (no_color cfg) ?t0") auto
  obtain n where t1: "t1 = (if strip (input_data ?t0) = [] then ?t0\<lparr>input_data := NO_INPUT\<rparr> else ?t0)
                     \<lparr>next_character_id := n\<rparr>"
    using decompose_input_result [OF dec] by blast
  have f1: "height t1 = h" "width t1 = w" "config t1 = cfg"
    "character_by_input_coord t1 = Map.empty" "next_character_id t1 = n"
    unfolding t1 by (simp_all add: Terminal_unassigned_def)
  obtain iw where iw: "py_max (map (\<lambda>c. column (input_coord c)) chars) = Inr iw"
    using assms dims dec unfolding Terminal_init_def Let_def
    by (cases "py_max (map (\<lambda>c. column (input_coord c)) chars)") auto
  obtain ih where ih: "py_max (map (\<lambda>c. row (input_coord c)) chars) = Inr ih"
    using assms dims dec iw unfolding Terminal_init_def Let_def
    by (cases "py_max (map (\<lambda>c. row (input_coord c)) chars)") auto
  let ?top = "min (max h 1) ih"
  let ?kept = "filter (\<lambda>c. row (input_coord c) \<le> ?top \<and> column (input_coord c) \<le> iw) chars"
  obtain fills m nid where fr:
    "fill_rows cfg (py_range 1 (?top + 1)) (py_range 1 (iw + 1))
      ([], fold (\<lambda>c m. m(input_coord c \<mapsto> c)) ?kept Map.empty, n) = (fills, m, nid)"
    using prod_cases3 by blast
  have cv: "top_row (Canvas_default ?top iw) = ?top" "right (Canvas_default ?top iw) = iw"
    by (simp_all add: Canvas_default_def Canvas_init_def Let_def)
  have "Terminal_init inp cfg det = Some (Inr (update_terminal_state
      (t1\<lparr>added_characters := [], input_width := iw, input_height := ih,
          canvas := Canvas_default ?top iw, input_characters := ?kept,
          character_by_input_coord := m, next_character_id := nid,
          fill_characters := fills, visible_characters := []\<rparr>)))"
    using dims dec iw ih fr f1 cv
    unfolding Terminal_init_def Let_def make_fill_characters_def
    by simp
  then have "t = update_terminal_state
      (t1\<lparr>added_characters := [], input_width := iw, input_height := ih,
          canvas := Canvas_default ?top iw, input_characters := ?kept,
          character_by_input_coord := m, next_character_id := nid,
          fill_characters := fills, visible_characters := []\<rparr>)"
    using assms by simp
  then have fields: "canvas t = Canvas_default ?top iw" "input_characters t = ?kept"
    "fill_characters t = fills" "character_by_input_coord t = m" "next_character_id t = nid"
    "added_characters t = []" "visible_characters t = []"
    "height t = h" "width t = w" "config t = cfg" "input_width t = iw" "input_height t = ih"
    using f1 by (simp_all add: update_terminal_state_def Let_def)
  show ?thesis
    using dims dec iw ih fr fields f1(5) by auto
qed

lemma decompose_input_members:
  assumes "decompose_input ux nc t = Some (chars, t')" "c \<in> set chars"
  shows "1 \<le> column (input_coord c) \<and> 1 \<le> row (input_coord c) \<and>
         next_character_id t \<le> character_id c \<and> character_id c < next_character_id t'"
proof -
  obtain lines where
    chars: "chars = fst (decompose_lines ux nc (int (length lines)) 0 lines (next_character_id t))"
    and t': "t' = (if strip (input_data t) = [] then t\<lparr>input_data := NO_INPUT\<rparr> else t)
            \<lparr>next_character_id :=
               snd (decompose_lines ux nc (int (length lines)) 0 lines (next_character_id t))\<rparr>"
    using decompose_input_result [OF assms(1)] by blast
  have mem: "c \<in> set (fst (decompose_lines ux nc (int (length lines)) 0 lines (next_character_id t)))"
    using assms(2) chars by simp
  have "next_character_id t' =
      snd (decompose_lines ux nc (int (length lines)) 0 lines (next_character_id t))"
    unfolding t' by simp
  then show ?thesis
    using decompose_lines_member [OF mem] decompose_lines_member_id [OF mem] by simp
qed

lemma decompose_input_next_id:
  assumes "decompose_input ux nc t = Some (chars, t')"
  shows "next_character_id t \<le> next_character_id t'"
proof -
  obtain lines where
    t': "t' = (if strip (input_data t) = [] then t\<lparr>input_data := NO_INPUT\<rparr> else t)
            \<lparr>next_character_id :=
               snd (decompose_lines ux nc (int (length lines)) 0 lines (next_character_id t))\<rparr>"
    using decompose_input_result [OF assms(1)] by blast
  have "next_character_id t' =
      snd (decompose_lines ux nc (int (length lines)) 0 lines (next_character_id t))"
    unfolding t' by simp
  then show ?thesis
    using conjunct2 [OF decompose_lines_ids [of ux nc "int (length lines)" 0 lines "next_character_id t"]]
    by simp
qed

lemma Terminal_init_bounds:
  assumes "Terminal_init inp cfg det = Some (Inr t)"
  shows "bottom (canvas t) = 1 \<and> left (canvas t) = 1 \<and>
         1 \<le> top_row (canvas t) \<and> 1 \<le> right (canvas t)"
proof -
  obtain w h chars t1 iw ih where
    dec: "decompose_input (xterm_colors cfg) (no_color cfg)
      (Terminal_unassigned cfg (init_input_data inp cfg) det w h) = Some (chars, t1)"
    and iw: "py_max (map (\<lambda>c. column (input_coord c)) chars) = Inr iw"
    and ih: "py_max (map (\<lambda>c. row (input_coord c)) chars) = Inr ih"
    and cv: "canvas t = Canvas_default (min (max h 1) ih) iw"
    using Terminal_init_inversion [OF assms] by blast
  obtain c1 where "c1 \<in> set chars" "column (input_coord c1) = iw"
    using py_max_Inr [OF iw] by auto
  then have "1 \<le> iw"
    using decompose_input_members [OF dec] by blast
  moreover obtain c2 where "c2 \<in> set chars" "row (input_coord c2) = ih"
    using py_max_Inr [OF ih] by auto
  then have "1 \<le> ih"
    using decompose_input_members [OF dec] by blast
  ultimately show ?thesis
    unfolding cv by (simp add: Canvas_default_def Canvas_init_def Let_def)
qed

text \<open>
  C10: the canvas of every constructed terminal has bottom 1, left 1, and at least one
  row and one column; so the zero-based test of \<^verbatim>\<open>_update_terminal_state\<close> accepts a
  coordinate exactly when \<^verbatim>\<open>coord_is_in_canvas\<close> holds for it, and the compositor writes
  a character exactly when its current coordinate is in the canvas.
\<close>

theorem Terminal_init_canvas_origin:
  assumes "Terminal_init inp cfg det = Some (Inr t)"
  shows "bottom (canvas t) = 1 \<and> left (canvas t) = 1 \<and>
         1 \<le> top_row (canvas t) \<and> 1 \<le> right (canvas t) \<and>
         (\<forall>coord. (0 \<le> row coord - 1 \<and> row coord - 1 < top_row (canvas t) \<and>
                   0 \<le> column coord - 1 \<and> column coord - 1 < right (canvas t))
                  \<longleftrightarrow> coord_is_in_canvas (canvas t) coord) \<and>
         (\<forall>character rows. place_character (canvas t) character rows =
            (if coord_is_in_canvas (canvas t) (current_coord character)
             then rows[nat (row (current_coord character) - 1) :=
                    (rows ! nat (row (current_coord character) - 1))
                      [nat (column (current_coord character) - 1) := symbol character]]
             else rows))"
proof -
  have b: "bottom (canvas t) = 1" "left (canvas t) = 1"
    "1 \<le> top_row (canvas t)" "1 \<le> right (canvas t)"
    using Terminal_init_bounds [OF assms] by simp_all
  have eq: "(0 \<le> row coord - 1 \<and> row coord - 1 < top_row (canvas t) \<and>
             0 \<le> column coord - 1 \<and> column coord - 1 < right (canvas t))
            \<longleftrightarrow> coord_is_in_canvas (canvas t) coord" for coord
    unfolding coord_is_in_canvas_def b by auto
  have "place_character (canvas t) character rows =
            (if coord_is_in_canvas (canvas t) (current_coord character)
             then rows[nat (row (current_coord character) - 1) :=
                    (rows ! nat (row (current_coord character) - 1))
                      [nat (column (current_coord character) - 1) := symbol character]]
             else rows)" for character rows
    unfolding place_character_def Let_def eq [symmetric] by simp
  then show ?thesis
    using b eq by blast
qed

lemma Terminal_init_returns:
  assumes "init_dimensions (init_input_data inp cfg) cfg det = Inr (w, h)"
    and "decompose_input (xterm_colors cfg) (no_color cfg)
      (Terminal_unassigned cfg (init_input_data inp cfg) det w h) = Some (chars, t1)"
    and "chars \<noteq> []"
  shows "\<exists>t. Terminal_init inp cfg det = Some (Inr t)"
proof -
  obtain c cs where "chars = c # cs"
    using assms(3) by (cases chars) auto
  then obtain iw ih where "py_max (map (\<lambda>c. column (input_coord c)) chars) = Inr iw"
    "py_max (map (\<lambda>c. row (input_coord c)) chars) = Inr ih"
    by simp
  then show ?thesis
    using assms(1,2) unfolding Terminal_init_def Let_def
    by (simp split: prod.splits)
qed

lemma Terminal_init_canvas_size_of:
  assumes "Terminal_init inp cfg det = Some (Inr t)"
  shows "\<exists>w h chars t1.
    init_dimensions (init_input_data inp cfg) cfg det = Inr (w, h) \<and>
    decompose_input (xterm_colors cfg) (no_color cfg)
      (Terminal_unassigned cfg (init_input_data inp cfg) det w h) = Some (chars, t1) \<and>
    chars \<noteq> [] \<and> height t = h \<and>
    input_height t = Max (set (map (\<lambda>c. row (input_coord c)) chars)) \<and>
    input_width t = Max (set (map (\<lambda>c. column (input_coord c)) chars)) \<and>
    top_row (canvas t) = min (max (height t) 1) (input_height t) \<and>
    top_row (canvas t) = max (min (height t) (input_height t)) 1 \<and>
    right (canvas t) = input_width t \<and>
    input_characters t = filter (\<lambda>c. coord_is_in_canvas (canvas t) (input_coord c)) chars \<and>
    (\<forall>c \<in> set (input_characters t). coord_is_in_canvas (canvas t) (input_coord c)) \<and>
    (\<forall>c \<in> set chars. c \<notin> set (input_characters t) \<longleftrightarrow>
        \<not> coord_is_in_canvas (canvas t) (input_coord c))"
proof -
  obtain w h chars t1 iw ih where
    dims: "init_dimensions (init_input_data inp cfg) cfg det = Inr (w, h)"
    and dec: "decompose_input (xterm_colors cfg) (no_color cfg)
      (Terminal_unassigned cfg (init_input_data inp cfg) det w h) = Some (chars, t1)"
    and iw: "py_max (map (\<lambda>c. column (input_coord c)) chars) = Inr iw"
    and ih: "py_max (map (\<lambda>c. row (input_coord c)) chars) = Inr ih"
    and cv: "canvas t = Canvas_default (min (max h 1) ih) iw"
    and kept: "input_characters t =
      filter (\<lambda>c. row (input_coord c) \<le> min (max h 1) ih \<and> column (input_coord c) \<le> iw) chars"
    and fields: "height t = h" "input_width t = iw" "input_height t = ih"
    using Terminal_init_inversion [OF assms] by blast
  have ne: "chars \<noteq> []"
    using iw by (cases chars) auto
  have iw_max: "iw = Max (set (map (\<lambda>c. column (input_coord c)) chars))"
    using iw ne by (cases "map (\<lambda>c. column (input_coord c)) chars")
      (simp_all only: py_max.simps Max.set_eq_fold sum.inject, simp_all)
  have ih_max: "ih = Max (set (map (\<lambda>c. row (input_coord c)) chars))"
    using ih ne by (cases "map (\<lambda>c. row (input_coord c)) chars")
      (simp_all only: py_max.simps Max.set_eq_fold sum.inject, simp_all)
  have b: "bottom (canvas t) = 1" "left (canvas t) = 1"
    "1 \<le> top_row (canvas t)" "1 \<le> right (canvas t)"
    using Terminal_init_bounds [OF assms] by simp_all
  have top: "top_row (canvas t) = min (max h 1) ih" and right: "right (canvas t) = iw"
    unfolding cv by (simp_all add: Canvas_default_def Canvas_init_def Let_def)
  have "1 \<le> ih"
    using b(3) top by simp
  then have top2: "top_row (canvas t) = max (min h ih) 1"
    using top by simp
  have same: "(row (input_coord c) \<le> min (max h 1) ih \<and> column (input_coord c) \<le> iw)
      \<longleftrightarrow> coord_is_in_canvas (canvas t) (input_coord c)" if "c \<in> set chars" for c
    using decompose_input_members [OF dec that] b(1,2) top right
    by (auto simp: coord_is_in_canvas_def)
  have filt: "input_characters t = filter (\<lambda>c. coord_is_in_canvas (canvas t) (input_coord c)) chars"
    unfolding kept using same by (intro filter_cong) simp_all
  have "\<forall>c \<in> set (input_characters t). coord_is_in_canvas (canvas t) (input_coord c)"
    unfolding filt by simp
  moreover have "\<forall>c \<in> set chars. c \<notin> set (input_characters t) \<longleftrightarrow>
        \<not> coord_is_in_canvas (canvas t) (input_coord c)"
    unfolding filt by simp
  ultimately show ?thesis
    using dims dec ne fields iw_max ih_max top top2 right filt by auto
qed

text \<open>
  C5: in a constructed terminal the top of the canvas is the minimum of the requested
  height, raised to at least 1, and the largest row of a decomposed character, which is
  also the minimum of the two heights raised to at least 1; the right of the canvas is
  the largest column of a decomposed character; the input characters kept are exactly the
  decomposed ones inside the canvas, in their order. Dropping the others raises nothing:
  the constructor returns a terminal whenever the decomposition returns at least one
  character.
\<close>

theorem Terminal_init_canvas_size:
  "(Terminal_init inp cfg det = Some (Inr t) \<longrightarrow>
     (\<exists>w h chars t1.
        init_dimensions (init_input_data inp cfg) cfg det = Inr (w, h) \<and>
        decompose_input (xterm_colors cfg) (no_color cfg)
          (Terminal_unassigned cfg (init_input_data inp cfg) det w h) = Some (chars, t1) \<and>
        chars \<noteq> [] \<and> height t = h \<and>
        input_height t = Max (set (map (\<lambda>c. row (input_coord c)) chars)) \<and>
        input_width t = Max (set (map (\<lambda>c. column (input_coord c)) chars)) \<and>
        top_row (canvas t) = min (max (height t) 1) (input_height t) \<and>
        top_row (canvas t) = max (min (height t) (input_height t)) 1 \<and>
        right (canvas t) = input_width t \<and>
        input_characters t = filter (\<lambda>c. coord_is_in_canvas (canvas t) (input_coord c)) chars \<and>
        (\<forall>c \<in> set (input_characters t). coord_is_in_canvas (canvas t) (input_coord c)) \<and>
        (\<forall>c \<in> set chars. c \<notin> set (input_characters t) \<longleftrightarrow>
            \<not> coord_is_in_canvas (canvas t) (input_coord c)))) \<and>
   (init_dimensions (init_input_data inp cfg) cfg det = Inr (w', h') \<and>
    decompose_input (xterm_colors cfg) (no_color cfg)
      (Terminal_unassigned cfg (init_input_data inp cfg) det w' h') = Some (chars', t1') \<and>
    chars' \<noteq> [] \<longrightarrow>
      (\<exists>t'. Terminal_init inp cfg det = Some (Inr t')))"
proof (intro conjI impI)
  assume "Terminal_init inp cfg det = Some (Inr t)"
  then show "\<exists>w h chars t1.
        init_dimensions (init_input_data inp cfg) cfg det = Inr (w, h) \<and>
        decompose_input (xterm_colors cfg) (no_color cfg)
          (Terminal_unassigned cfg (init_input_data inp cfg) det w h) = Some (chars, t1) \<and>
        chars \<noteq> [] \<and> height t = h \<and>
        input_height t = Max (set (map (\<lambda>c. row (input_coord c)) chars)) \<and>
        input_width t = Max (set (map (\<lambda>c. column (input_coord c)) chars)) \<and>
        top_row (canvas t) = min (max (height t) 1) (input_height t) \<and>
        top_row (canvas t) = max (min (height t) (input_height t)) 1 \<and>
        right (canvas t) = input_width t \<and>
        input_characters t = filter (\<lambda>c. coord_is_in_canvas (canvas t) (input_coord c)) chars \<and>
        (\<forall>c \<in> set (input_characters t). coord_is_in_canvas (canvas t) (input_coord c)) \<and>
        (\<forall>c \<in> set chars. c \<notin> set (input_characters t) \<longleftrightarrow>
            \<not> coord_is_in_canvas (canvas t) (input_coord c))"
    by (rule Terminal_init_canvas_size_of)
next
  assume "init_dimensions (init_input_data inp cfg) cfg det = Inr (w', h') \<and>
    decompose_input (xterm_colors cfg) (no_color cfg)
      (Terminal_unassigned cfg (init_input_data inp cfg) det w' h') = Some (chars', t1') \<and>
    chars' \<noteq> []"
  then show "\<exists>t'. Terminal_init inp cfg det = Some (Inr t')"
    using Terminal_init_returns [of inp cfg det w' h' chars' t1'] by blast
qed

lemma fold_update_values:
  "(fold (\<lambda>c m. m(input_coord c \<mapsto> c)) cs m0) k = Some c \<Longrightarrow> m0 k = Some c \<or> c \<in> set cs"
proof (induction cs arbitrary: m0)
  case Nil
  then show ?case by simp
next
  case (Cons x cs)
  have "fold (\<lambda>c m. m(input_coord c \<mapsto> c)) cs (m0(input_coord x \<mapsto> x)) k = Some c"
    using Cons.prems by (simp only: List.fold_simps comp_apply)
  then have "(m0(input_coord x \<mapsto> x)) k = Some c \<or> c \<in> set cs"
    by (rule Cons.IH)
  then show ?case
    by (cases "k = input_coord x") auto
qed

lemma set_py_range: "set (py_range a b) = {a..b - 1}"
  by (simp add: py_range_def)

lemma Terminal_init_cells:
  assumes "Terminal_init inp cfg det = Some (Inr t)"
    and "1 \<le> col" "col \<le> right (canvas t)" "1 \<le> rw" "rw \<le> top_row (canvas t)"
  shows "\<exists>c. character_by_input_coord t (Coord col rw) = Some c \<and>
             (c \<in> set (input_characters t) \<or> c \<in> set (fill_characters t))"
proof -
  obtain h and t1 :: Terminal and iw ih fills m nid where
    cv: "canvas t = Canvas_default (min (max h 1) ih) iw"
    and fr: "fill_rows cfg (py_range 1 (min (max h 1) ih + 1)) (py_range 1 (iw + 1))
      ([], fold (\<lambda>c m. m(input_coord c \<mapsto> c)) (input_characters t) Map.empty,
       next_character_id t1) = (fills, m, nid)"
    and fields: "fill_characters t = fills" "character_by_input_coord t = m"
    using Terminal_init_inversion [OF assms(1)] by blast
  have top: "top_row (canvas t) = min (max h 1) ih" and right: "right (canvas t) = iw"
    unfolding cv by (simp_all add: Canvas_default_def Canvas_init_def Let_def)
  note inv = fill_rows_inv [OF fr]
  have "rw \<in> set (py_range 1 (min (max h 1) ih + 1))" "col \<in> set (py_range 1 (iw + 1))"
    using assms(2-5) top right by (simp_all add: set_py_range)
  then have "m (Coord col rw) \<noteq> None"
    using inv by blast
  then obtain c where c: "m (Coord col rw) = Some c"
    by auto
  then have "fold (\<lambda>c m. m(input_coord c \<mapsto> c)) (input_characters t) Map.empty (Coord col rw) = Some c
      \<or> c \<in> set fills"
    using inv by blast
  then have "c \<in> set (input_characters t) \<or> c \<in> set fills"
    using fold_update_values [of "input_characters t" Map.empty "Coord col rw" c] by auto
  then show ?thesis
    using c fields by simp
qed

lemma Terminal_init_ids:
  assumes "Terminal_init inp cfg det = Some (Inr t)"
  shows "\<forall>c \<in> set (input_characters t) \<union> set (fill_characters t).
           0 \<le> character_id c \<and> character_id c < next_character_id t"
proof -
  obtain w h chars t1 iw ih fills m nid where
    dec: "decompose_input (xterm_colors cfg) (no_color cfg)
      (Terminal_unassigned cfg (init_input_data inp cfg) det w h) = Some (chars, t1)"
    and kept: "input_characters t =
      filter (\<lambda>c. row (input_coord c) \<le> min (max h 1) ih \<and> column (input_coord c) \<le> iw) chars"
    and fr: "fill_rows cfg (py_range 1 (min (max h 1) ih + 1)) (py_range 1 (iw + 1))
      ([], fold (\<lambda>c m. m(input_coord c \<mapsto> c)) (input_characters t) Map.empty,
       next_character_id t1) = (fills, m, nid)"
    and fields: "fill_characters t = fills" "next_character_id t = nid"
    using Terminal_init_inversion [OF assms(1)] by blast
  note inv = fill_rows_inv [OF fr]
  have zero: "next_character_id (Terminal_unassigned cfg (init_input_data inp cfg) det w h) = 0"
    by (simp add: Terminal_unassigned_def)
  have n1: "0 \<le> next_character_id t1"
    using decompose_input_next_id [OF dec] zero by simp
  have le: "next_character_id t1 \<le> nid"
    using inv by blast
  show ?thesis
  proof
    fix c assume "c \<in> set (input_characters t) \<union> set (fill_characters t)"
    then consider "c \<in> set chars" | "c \<in> set fills"
      using kept fields by auto
    then show "0 \<le> character_id c \<and> character_id c < next_character_id t"
    proof cases
      case 1
      then show ?thesis
        using decompose_input_members [OF dec 1] zero le fields by simp
    next
      case 2
      then have "next_character_id t1 \<le> character_id c \<and> character_id c < nid"
        using inv by auto
      then show ?thesis
        using n1 fields by simp
    qed
  qed
qed

lemma add_characters_unchanged:
  "character_by_input_coord (add_characters calls t) = character_by_input_coord t \<and>
   input_characters (add_characters calls t) = input_characters t \<and>
   fill_characters (add_characters calls t) = fill_characters t \<and>
   canvas (add_characters calls t) = canvas t \<and>
   next_character_id (add_characters calls t) = next_character_id t + int (length calls)"
proof (induction calls arbitrary: t)
  case Nil
  then show ?case by simp
next
  case (Cons call calls)
  obtain smb coord where call: "call = (smb, coord)"
    by (cases call)
  let ?t' = "snd (add_character smb coord t)"
  have t': "character_by_input_coord ?t' = character_by_input_coord t"
    "input_characters ?t' = input_characters t" "fill_characters ?t' = fill_characters t"
    "canvas ?t' = canvas t" "next_character_id ?t' = next_character_id t + 1"
    by (simp_all add: add_character_def Let_def)
  have step: "add_characters (call # calls) t = add_characters calls ?t'"
    using call by simp
  show ?case
    unfolding step using Cons.IH [of ?t'] t' by simp
qed

lemma add_characters_added:
  "\<exists>new. added_characters (add_characters calls t) = added_characters t @ new \<and>
          map (\<lambda>c. (symbol c, input_coord c)) new = calls \<and>
          map character_id new = map (\<lambda>k. next_character_id t + int k) [0..<length calls]"
proof (induction calls arbitrary: t)
  case Nil
  then show ?case by simp
next
  case (Cons call calls)
  obtain smb coord where call: "call = (smb, coord)"
    by (cases call)
  let ?ch = "(EffectCharacter_init (next_character_id t) smb (column coord) (row coord))
            \<lparr>animation_use_xterm_colors := xterm_colors (config t),
             animation_no_color := no_color (config t)\<rparr>"
  let ?t' = "snd (add_character smb coord t)"
  have t': "next_character_id ?t' = next_character_id t + 1"
    "added_characters ?t' = added_characters t @ [?ch]"
    by (simp_all add: add_character_def Let_def)
  have step: "add_characters (call # calls) t = add_characters calls ?t'"
    using call by simp
  from Cons.IH [of ?t'] obtain new where
    new: "added_characters (add_characters calls ?t') = added_characters ?t' @ new"
    "map (\<lambda>c. (symbol c, input_coord c)) new = calls"
    "map character_id new = map (\<lambda>k. next_character_id ?t' + int k) [0..<length calls]"
    by (elim exE conjE)
  have ch: "symbol ?ch = smb" "input_coord ?ch = coord" "character_id ?ch = next_character_id t"
    by (simp_all add: EffectCharacter_init_def)
  have "map (\<lambda>k. next_character_id t + int k) [0..<Suc (length calls)] =
        next_character_id t # map (\<lambda>k. next_character_id t + int k) [1..<1 + length calls]"
    by (simp add: upt_conv_Cons del: upt_Suc)
  also have "map (\<lambda>k. next_character_id t + int k) [1..<1 + length calls] =
        map (\<lambda>k. next_character_id t + int (1 + k)) [0..<length calls]"
    by (rule upt_shift [symmetric])
  finally have ids: "map (\<lambda>k. next_character_id t + int k) [0..<Suc (length calls)] =
        next_character_id t # map (\<lambda>k. next_character_id ?t' + int k) [0..<length calls]"
    unfolding t'(1) by (simp add: add.assoc)
  have a: "added_characters (add_characters (call # calls) t) = added_characters t @ (?ch # new)"
    unfolding step new(1) t'(2) by simp
  have b: "map (\<lambda>c. (symbol c, input_coord c)) (?ch # new) = call # calls"
    using new(2) ch(1,2) call by simp
  have c: "map character_id (?ch # new) =
      map (\<lambda>k. next_character_id t + int k) [0..<length (call # calls)]"
    using new(3) ch(3) ids by simp
  show ?case
    by (rule exI [of _ "?ch # new"]) (intro conjI a b c)
qed

lemma distinct_consecutive_ids: "distinct (map (\<lambda>k. n + int k) [0..<len])"
  by (simp add: distinct_map inj_on_def)

text \<open>
  C2: after construction every cell of the canvas has an entry in
  \<^verbatim>\<open>character_by_input_coord\<close>, an input or a fill character; every id given out so far,
  also to a decomposed character that was dropped, is below the next id. After any
  sequence of \<^verbatim>\<open>add_character\<close> calls the dictionary, the input and the fill characters
  are as before, \<^verbatim>\<open>added_characters\<close> holds one character per call, with the symbol and
  coordinate of the call, their ids are distinct and not below the next id of the
  constructed terminal, and one more call appends exactly its character, whose id no
  added character has.
\<close>

theorem registry_map_and_add_character:
  assumes "Terminal_init inp cfg det = Some (Inr t)"
  shows "(\<forall>col rw. 1 \<le> col \<and> col \<le> right (canvas t) \<and> 1 \<le> rw \<and> rw \<le> top_row (canvas t) \<longrightarrow>
            (\<exists>c. character_by_input_coord t (Coord col rw) = Some c \<and>
                 (c \<in> set (input_characters t) \<or> c \<in> set (fill_characters t)))) \<and>
         (\<forall>c \<in> set (input_characters t) \<union> set (fill_characters t).
            character_id c < next_character_id t) \<and>
         (\<forall>w h chars t1.
            init_dimensions (init_input_data inp cfg) cfg det = Inr (w, h) \<and>
            decompose_input (xterm_colors cfg) (no_color cfg)
              (Terminal_unassigned cfg (init_input_data inp cfg) det w h) = Some (chars, t1) \<longrightarrow>
            (\<forall>c \<in> set chars. character_id c < next_character_id t)) \<and>
         (\<forall>calls.
            let u = add_characters calls t in
            character_by_input_coord u = character_by_input_coord t \<and>
            input_characters u = input_characters t \<and>
            fill_characters u = fill_characters t \<and>
            length (added_characters u) = length calls \<and>
            map (\<lambda>c. (symbol c, input_coord c)) (added_characters u) = calls \<and>
            distinct (map character_id (added_characters u)) \<and>
            (\<forall>a \<in> set (added_characters u). next_character_id t \<le> character_id a) \<and>
            (\<forall>smb coord.
               let ch = fst (add_character smb coord u); u' = snd (add_character smb coord u) in
               added_characters u' = added_characters u @ [ch] \<and>
               character_by_input_coord u' = character_by_input_coord u \<and>
               symbol ch = smb \<and> input_coord ch = coord \<and>
               next_character_id t \<le> character_id ch \<and>
               (\<forall>c \<in> set (added_characters u). character_id ch \<noteq> character_id c)))"
proof (intro conjI allI)
  show "\<forall>c \<in> set (input_characters t) \<union> set (fill_characters t).
            character_id c < next_character_id t"
    using Terminal_init_ids [OF assms] by blast
next
  fix col rw
  show "1 \<le> col \<and> col \<le> right (canvas t) \<and> 1 \<le> rw \<and> rw \<le> top_row (canvas t) \<longrightarrow>
            (\<exists>c. character_by_input_coord t (Coord col rw) = Some c \<and>
                 (c \<in> set (input_characters t) \<or> c \<in> set (fill_characters t)))"
    using Terminal_init_cells [OF assms, of col rw] by blast
next
  fix w h chars t1
  show "init_dimensions (init_input_data inp cfg) cfg det = Inr (w, h) \<and>
        decompose_input (xterm_colors cfg) (no_color cfg)
          (Terminal_unassigned cfg (init_input_data inp cfg) det w h) = Some (chars, t1) \<longrightarrow>
        (\<forall>c \<in> set chars. character_id c < next_character_id t)"
  proof (intro impI ballI, elim conjE)
    fix c
    assume dims: "init_dimensions (init_input_data inp cfg) cfg det = Inr (w, h)"
      and dec: "decompose_input (xterm_colors cfg) (no_color cfg)
          (Terminal_unassigned cfg (init_input_data inp cfg) det w h) = Some (chars, t1)"
      and c: "c \<in> set chars"
    obtain w' h' chars' t1' iw ih fills m nid where
      dims': "init_dimensions (init_input_data inp cfg) cfg det = Inr (w', h')"
      and dec': "decompose_input (xterm_colors cfg) (no_color cfg)
        (Terminal_unassigned cfg (init_input_data inp cfg) det w' h') = Some (chars', t1')"
      and fr: "fill_rows cfg (py_range 1 (min (max h' 1) ih + 1)) (py_range 1 (iw + 1))
        ([], fold (\<lambda>c m. m(input_coord c \<mapsto> c)) (input_characters t) Map.empty,
         next_character_id t1') = (fills, m, nid)"
      and nid: "next_character_id t = nid"
      using Terminal_init_inversion [OF assms] by blast
    have "w' = w" "h' = h"
      using dims dims' by simp_all
    then have "t1' = t1"
      using dec dec' by simp
    then have "next_character_id t1 \<le> nid"
      using fill_rows_inv [OF fr] by blast
    then show "character_id c < next_character_id t"
      using decompose_input_members [OF dec c] nid by simp
  qed
next
  fix calls
  let ?u = "add_characters calls t"
  have added0: "added_characters t = []"
    using Terminal_init_inversion [OF assms] by blast
  note same = add_characters_unchanged [of calls t]
  obtain new where new: "added_characters ?u = added_characters t @ new"
    "map (\<lambda>c. (symbol c, input_coord c)) new = calls"
    "map character_id new = map (\<lambda>k. next_character_id t + int k) [0..<length calls]"
    using add_characters_added [of calls t] by (elim exE conjE)
  have added: "added_characters ?u = new"
    using new(1) added0 by simp
  have len: "length new = length calls"
    using new(2) by (metis length_map)
  have dist: "distinct (map character_id new)"
    unfolding new(3) by (rule distinct_consecutive_ids)
  have ids: "next_character_id t \<le> character_id a \<and>
             character_id a < next_character_id t + int (length calls)" if "a \<in> set new" for a
  proof -
    have "character_id a \<in> set (map character_id new)"
      using that by simp
    then show ?thesis
      unfolding new(3) by auto
  qed
  have next_u: "next_character_id ?u = next_character_id t + int (length calls)"
    using same by blast
  have add: "added_characters (snd (add_character smb coord ?u)) =
               added_characters ?u @ [fst (add_character smb coord ?u)] \<and>
             character_by_input_coord (snd (add_character smb coord ?u)) =
               character_by_input_coord ?u \<and>
             symbol (fst (add_character smb coord ?u)) = smb \<and>
             input_coord (fst (add_character smb coord ?u)) = coord \<and>
             character_id (fst (add_character smb coord ?u)) = next_character_id ?u"
    for smb coord
    by (simp add: add_character_def Let_def EffectCharacter_init_def)
  have fresh: "next_character_id t \<le> character_id (fst (add_character smb coord ?u)) \<and>
      (\<forall>c \<in> set (added_characters ?u).
          character_id (fst (add_character smb coord ?u)) \<noteq> character_id c)" for smb coord
  proof (intro conjI ballI)
    have id: "character_id (fst (add_character smb coord ?u)) =
        next_character_id t + int (length calls)"
      using add [of smb coord] next_u by simp
    then show "next_character_id t \<le> character_id (fst (add_character smb coord ?u))"
      by simp
    fix c assume "c \<in> set (added_characters ?u)"
    then have "character_id c < next_character_id t + int (length calls)"
      using ids [of c] added by simp
    then show "character_id (fst (add_character smb coord ?u)) \<noteq> character_id c"
      using id by simp
  qed
  show "let u = add_characters calls t in
            character_by_input_coord u = character_by_input_coord t \<and>
            input_characters u = input_characters t \<and>
            fill_characters u = fill_characters t \<and>
            length (added_characters u) = length calls \<and>
            map (\<lambda>c. (symbol c, input_coord c)) (added_characters u) = calls \<and>
            distinct (map character_id (added_characters u)) \<and>
            (\<forall>a \<in> set (added_characters u). next_character_id t \<le> character_id a) \<and>
            (\<forall>smb coord.
               let ch = fst (add_character smb coord u); u' = snd (add_character smb coord u) in
               added_characters u' = added_characters u @ [ch] \<and>
               character_by_input_coord u' = character_by_input_coord u \<and>
               symbol ch = smb \<and> input_coord ch = coord \<and>
               next_character_id t \<le> character_id ch \<and>
               (\<forall>c \<in> set (added_characters u). character_id ch \<noteq> character_id c))"
    unfolding Let_def
    using same added len new(2) dist ids add fresh by (intro conjI allI ballI) auto
qed

subsection \<open>Constructed terminals, continued\<close>

text \<open>
  The terminal built from "AB\<newline>C" when the configured canvas height is 1: the upper
  line is dropped.
\<close>

lemma Terminal_init_example_clamped:
  "\<exists>t. Terminal_init (str_of ''AB\<newline>C'') (TerminalConfig_default\<lparr>canvas_height := 1\<rparr>) (80, 24)
          = Some (Inr t) \<and>
     input_characters t = [EffectCharacter_init 2 [67] 1 1] \<and>
     fill_characters t = [EffectCharacter_init 3 [32] 2 1] \<and>
     canvas t = Canvas_default 1 2 \<and> height t = 1 \<and> input_height t = 2 \<and> input_width t = 2"
  by (simp add: Terminal_init_def init_input_data_def init_dimensions_def
      TerminalConfig_default_def str_AB_C replace_char_def TAB_def SPACE_def
      Terminal_unassigned_def decompose_input_def strip_AB_C splitlines_AB_C format_lines_def
      slice_to_def Let_def EffectCharacter_init_def Canvas_default_def Canvas_init_def
      make_fill_characters_def py_range_def upto.simps update_terminal_state_def)

text \<open>C5 on that terminal: the top is 1, the right is 2, only C is kept.\<close>

theorem Terminal_init_canvas_size_witness:
  "\<exists>t. Terminal_init (str_of ''AB\<newline>C'') (TerminalConfig_default\<lparr>canvas_height := 1\<rparr>) (80, 24)
          = Some (Inr t) \<and>
     height t = 1 \<and> input_height t = 2 \<and> top_row (canvas t) = 1 \<and> right (canvas t) = 2 \<and>
     input_characters t = [EffectCharacter_init 2 [67] 1 1] \<and>
     coord_is_in_canvas (canvas t) (Coord 1 1) \<and> \<not> coord_is_in_canvas (canvas t) (Coord 1 2)"
proof -
  obtain t where t: "Terminal_init (str_of ''AB\<newline>C'')
      (TerminalConfig_default\<lparr>canvas_height := 1\<rparr>) (80, 24) = Some (Inr t)"
    "input_characters t = [EffectCharacter_init 2 [67] 1 1]"
    "canvas t = Canvas_default 1 2" "height t = 1" "input_height t = 2" "input_width t = 2"
    using Terminal_init_example_clamped by blast
  have "top_row (canvas t) = min (max (height t) 1) (input_height t) \<and>
        right (canvas t) = input_width t \<and>
        (\<forall>c \<in> set (input_characters t). coord_is_in_canvas (canvas t) (input_coord c))"
    using Terminal_init_canvas_size [of "str_of ''AB\<newline>C''"
        "TerminalConfig_default\<lparr>canvas_height := 1\<rparr>" "(80, 24)" t] t(1)
    by blast
  then have "top_row (canvas t) = 1" "right (canvas t) = 2"
    "coord_is_in_canvas (canvas t) (Coord 1 1)"
    using t(2,4,5,6) by (simp_all add: EffectCharacter_init_def)
  moreover have "\<not> coord_is_in_canvas (canvas t) (Coord 1 2)"
    using \<open>top_row (canvas t) = 1\<close> by (simp add: coord_is_in_canvas_def)
  ultimately show ?thesis
    using t by blast
qed

text \<open>C10 on the terminal built from "AB\<newline>C" with the default configuration.\<close>

theorem Terminal_init_canvas_origin_witness:
  "\<exists>t. Terminal_init (str_of ''AB\<newline>C'') TerminalConfig_default (80, 24) = Some (Inr t) \<and>
     bottom (canvas t) = 1 \<and> left (canvas t) = 1 \<and>
     top_row (canvas t) = 2 \<and> right (canvas t) = 2 \<and>
     coord_is_in_canvas (canvas t) (Coord 2 2) \<and> \<not> coord_is_in_canvas (canvas t) (Coord 3 1)"
proof -
  obtain t where t: "Terminal_init (str_of ''AB\<newline>C'') TerminalConfig_default (80, 24) = Some (Inr t)"
    "canvas t = Canvas_default 2 2"
    using Terminal_init_example by blast
  have dims: "top_row (canvas t) = 2" "right (canvas t) = 2"
    unfolding t(2) by (simp_all add: Canvas_default_def Canvas_init_def)
  have "bottom (canvas t) = 1 \<and> left (canvas t) = 1 \<and>
     (\<forall>coord. (0 \<le> row coord - 1 \<and> row coord - 1 < top_row (canvas t) \<and>
                   0 \<le> column coord - 1 \<and> column coord - 1 < right (canvas t))
                  \<longleftrightarrow> coord_is_in_canvas (canvas t) coord)"
    using Terminal_init_canvas_origin [OF t(1)] by blast
  then have "bottom (canvas t) = 1" "left (canvas t) = 1"
    "coord_is_in_canvas (canvas t) (Coord 2 2)" "\<not> coord_is_in_canvas (canvas t) (Coord 3 1)"
    using dims by (simp_all add: coord_is_in_canvas_def)
  then show ?thesis
    using t(1) dims by blast
qed

text \<open>
  C2 on the same terminal: the cell (2, 1) holds a character, and two added characters
  at (5, 5), outside the canvas, get the ids 4 and 5 and leave the dictionary alone.
\<close>

theorem registry_map_and_add_character_witness:
  "\<exists>t. Terminal_init (str_of ''AB\<newline>C'') TerminalConfig_default (80, 24) = Some (Inr t) \<and>
     (\<exists>c. character_by_input_coord t (Coord 2 1) = Some c \<and>
          (c \<in> set (input_characters t) \<or> c \<in> set (fill_characters t))) \<and>
     character_by_input_coord
       (add_characters [(str_of ''X'', Coord 5 5), (str_of ''Y'', Coord 5 5)] t) =
       character_by_input_coord t \<and>
     map (\<lambda>c. (character_id c, symbol c, input_coord c))
       (added_characters (add_characters [(str_of ''X'', Coord 5 5), (str_of ''Y'', Coord 5 5)] t)) =
       [(4, [88], Coord 5 5), (5, [89], Coord 5 5)]"
proof -
  obtain t where t: "Terminal_init (str_of ''AB\<newline>C'') TerminalConfig_default (80, 24) = Some (Inr t)"
    "canvas t = Canvas_default 2 2" "next_character_id t = 4" "added_characters t = []"
    using Terminal_init_example by blast
  have dims: "top_row (canvas t) = 2" "right (canvas t) = 2"
    unfolding t(2) by (simp_all add: Canvas_default_def Canvas_init_def)
  note main = registry_map_and_add_character [OF t(1)]
  have cell: "\<exists>c. character_by_input_coord t (Coord 2 1) = Some c \<and>
          (c \<in> set (input_characters t) \<or> c \<in> set (fill_characters t))"
    using conjunct1 [OF main] dims by simp
  have same: "character_by_input_coord
       (add_characters [(str_of ''X'', Coord 5 5), (str_of ''Y'', Coord 5 5)] t) =
       character_by_input_coord t"
    using main unfolding Let_def by blast
  have added: "map (\<lambda>c. (character_id c, symbol c, input_coord c))
       (added_characters (add_characters [(str_of ''X'', Coord 5 5), (str_of ''Y'', Coord 5 5)] t)) =
       [(4, [88], Coord 5 5), (5, [89], Coord 5 5)]"
    using t(3,4) by (simp add: add_character_def Let_def EffectCharacter_init_def str_of_def)
  show ?thesis
    by (rule exI [of _ t]) (intro conjI t(1) cell same added)
qed

subsection \<open>What the groupings contain\<close>

text \<open>
  The loop over an index range collects, counted with multiplicity, exactly the
  characters whose key is one of the indices.
\<close>

lemma concat_group_by_index:
  "concat (group_by_index key xs idx) = concat (map (\<lambda>i. filter (\<lambda>c. key c = i) xs) idx)"
  by (induction idx) (simp_all add: Let_def)

lemma mset_filter_key_in:
  "distinct idx \<Longrightarrow>
   mset (concat (map (\<lambda>i. filter (\<lambda>c. key c = i) xs) idx)) =
   filter_mset (\<lambda>c. key c \<in> set idx) (mset xs)"
proof (induction idx)
  case Nil
  then show ?case by simp
next
  case (Cons i idx)
  have "filter_mset (\<lambda>c. key c \<in> set (i # idx)) (mset xs) =
        filter_mset (\<lambda>c. key c = i) (mset xs) + filter_mset (\<lambda>c. key c \<in> set idx) (mset xs)"
    using Cons.prems
    by (induction xs) auto
  then show ?case
    using Cons by simp
qed

lemma mset_concat_rev: "mset (concat (rev xss)) = mset (concat xss)"
  by (induction xss) simp_all

lemma mset_group_by_index:
  assumes "distinct idx"
  shows "mset (concat (group_by_index key xs idx)) = filter_mset (\<lambda>c. key c \<in> set idx) (mset xs)"
    and "mset (concat (rev (group_by_index key xs idx))) =
         filter_mset (\<lambda>c. key c \<in> set idx) (mset xs)"
  using assms by (simp_all add: mset_concat_rev concat_group_by_index mset_filter_key_in)

lemma distinct_py_range: "distinct (py_range a b)"
  by (simp add: py_range_def)

lemma set_py_range_bounds: "x \<in> set (py_range a b) \<longleftrightarrow> a \<le> x \<and> x < b"
  by (auto simp: py_range_def)

text \<open>
  The diamond groupings: the dictionary keeps distinct keys and holds every character
  processed, and looking up its keys in any order returns all of them.
\<close>

lemma distance_map_update_keys:
  "map fst (map (\<lambda>(k, v). if k = d then (k, v @ [c]) else (k, v)) dm) = map fst dm"
  by (induction dm) auto

lemma distance_map_append_keys:
  "map fst (distance_map_append dm d c) =
     (if map_of dm d = None then map fst dm @ [d] else map fst dm)"
proof (cases "map_of dm d = None")
  case True
  have "map fst (distance_map_append dm d c) = map fst (dm @ [(d, [])])"
    unfolding distance_map_append_def Let_def if_P [OF True]
    by (rule distance_map_update_keys)
  then show ?thesis
    using True by simp
next
  case False
  have "map fst (distance_map_append dm d c) = map fst dm"
    unfolding distance_map_append_def Let_def if_not_P [OF False]
    by (rule distance_map_update_keys)
  then show ?thesis
    using False by simp
qed

lemma distance_map_update_absent:
  "d \<notin> fst ` set dm \<Longrightarrow>
   map (\<lambda>(k, v). if k = d then (k, v @ [c]) else (k, v)) dm = dm"
  by (induction dm) auto

lemma distance_map_update_present:
  "distinct (map fst dm) \<Longrightarrow> d \<in> fst ` set dm \<Longrightarrow>
   mset (concat (map snd (map (\<lambda>(k, v). if k = d then (k, v @ [c]) else (k, v)) dm))) =
   mset (concat (map snd dm)) + {#c#}"
proof (induction dm)
  case Nil
  then show ?case by simp
next
  case (Cons kv dm)
  obtain k v where kv: "kv = (k, v)"
    by (cases kv)
  show ?case
  proof (cases "k = d")
    case True
    then have "d \<notin> fst ` set dm"
      using Cons.prems(1) kv by auto
    then show ?thesis
      using True kv by (simp add: distance_map_update_absent)
  next
    case False
    then have "d \<in> fst ` set dm"
      using Cons.prems(2) kv by auto
    then show ?thesis
      using False kv Cons.IH Cons.prems(1) by simp
  qed
qed

lemma distance_map_append_contents:
  assumes "distinct (map fst dm)"
  shows "distinct (map fst (distance_map_append dm d c)) \<and>
         mset (concat (map snd (distance_map_append dm d c))) =
           mset (concat (map snd dm)) + {#c#}"
proof (cases "map_of dm d = None")
  case True
  then have absent: "d \<notin> fst ` set dm"
    by (simp add: map_of_eq_None_iff)
  have keys: "distinct (map fst (dm @ [(d, [])]))" "d \<in> fst ` set (dm @ [(d, [])])"
    using assms absent by auto
  have "distance_map_append dm d c =
        map (\<lambda>(k, v). if k = d then (k, v @ [c]) else (k, v)) (dm @ [(d, [])])"
    unfolding distance_map_append_def Let_def if_P [OF True] ..
  then have "mset (concat (map snd (distance_map_append dm d c))) =
        mset (concat (map snd (dm @ [(d, [])]))) + {#c#}"
    using distance_map_update_present [OF keys, of c] by simp
  moreover have "map fst (distance_map_append dm d c) = map fst dm @ [d]"
    using True by (simp add: distance_map_append_keys)
  ultimately show ?thesis
    using assms absent by simp
next
  case False
  then have present: "d \<in> fst ` set dm"
    by (simp add: map_of_eq_None_iff)
  have "distance_map_append dm d c =
        map (\<lambda>(k, v). if k = d then (k, v @ [c]) else (k, v)) dm"
    unfolding distance_map_append_def Let_def if_not_P [OF False] ..
  then have "mset (concat (map snd (distance_map_append dm d c))) =
        mset (concat (map snd dm)) + {#c#}"
    using distance_map_update_present [OF assms present, of c] by simp
  moreover have "map fst (distance_map_append dm d c) = map fst dm"
    using False by (simp add: distance_map_append_keys)
  ultimately show ?thesis
    using assms by simp
qed

lemma build_distance_map_contents:
  "distinct (map fst dm) \<Longrightarrow>
   distinct (map fst (build_distance_map cv cs dm)) \<and>
   mset (concat (map snd (build_distance_map cv cs dm))) = mset (concat (map snd dm)) + mset cs"
proof (induction cs arbitrary: dm)
  case Nil
  then show ?case by simp
next
  case (Cons c cs)
  let ?d = "\<bar>column (input_coord c) - column (center cv)\<bar>
            + \<bar>row (input_coord c) - row (center cv)\<bar>"
  note step = distance_map_append_contents [OF Cons.prems, of ?d c]
  show ?case
    using Cons.IH [of "distance_map_append dm ?d c"] step by (simp add: Let_def)
qed

lemma lookup_groups_eq:
  "set ks \<subseteq> fst ` set dm \<Longrightarrow>
   lookup_groups dm ks = Inr (map (\<lambda>k. the (map_of dm k)) ks)"
proof (induction ks)
  case Nil
  then show ?case by simp
next
  case (Cons k ks)
  then obtain g where "map_of dm k = Some g"
    by (cases "map_of dm k") (auto simp: map_of_eq_None_iff)
  then show ?case
    using Cons by simp
qed

lemma mset_concat_map_perm:
  assumes "mset ks = mset ks'"
  shows "mset (concat (map f ks)) = mset (concat (map f ks'))"
proof -
  have "mset (concat (map f xs)) = sum_mset (image_mset (\<lambda>k. mset (f k)) (mset xs))" for xs
    by (induction xs) simp_all
  then show ?thesis
    using assms by simp
qed

lemma map_of_keys_values:
  "distinct (map fst dm) \<Longrightarrow> map (\<lambda>k. the (map_of dm k)) (map fst dm) = map snd dm"
proof (induction dm)
  case Nil
  then show ?case by simp
next
  case (Cons kv dm)
  obtain k v where kv: "kv = (k, v)"
    by (cases kv)
  have "map (\<lambda>k'. the (map_of (kv # dm) k')) (map fst dm) =
        map (\<lambda>k'. the (map_of dm k')) (map fst dm)"
    using Cons.prems kv by (intro map_cong) auto
  then show ?case
    using Cons kv by simp
qed

lemma mset_sorted_keys: "mset (sorted_keys ks reverse) = mset ks"
  by (simp add: sorted_keys_def)

lemma diamonds_contents:
  assumes "dm = build_distance_map cv cs []"
  shows "\<exists>groups. lookup_groups dm (sorted_keys (map fst dm) reverse) = Inr groups \<and>
                  mset (concat groups) = mset cs"
proof -
  have d: "distinct (map fst dm)" and m: "mset (concat (map snd dm)) = mset cs"
    using build_distance_map_contents [of "[]" cv cs] assms by simp_all
  let ?ks = "sorted_keys (map fst dm) reverse"
  have "set ?ks = set (map fst dm)"
    using mset_sorted_keys [of "map fst dm" reverse] by (metis set_mset_mset)
  then have eq: "lookup_groups dm ?ks = Inr (map (\<lambda>k. the (map_of dm k)) ?ks)"
    by (intro lookup_groups_eq) simp
  have "mset (concat (map (\<lambda>k. the (map_of dm k)) ?ks)) =
        mset (concat (map (\<lambda>k. the (map_of dm k)) (map fst dm)))"
    by (rule mset_concat_map_perm) (rule mset_sorted_keys)
  also have "\<dots> = mset cs"
    unfolding map_of_keys_values [OF d] by (rule m)
  finally show ?thesis
    using eq by blast
qed

text \<open>
  For each pair of groupings, the characters the groups contain: those of the requested
  ones whose column, row or diagonal lies in the range the loop runs over; for the
  diamonds, all of them.
\<close>

lemma get_characters_grouped_columns:
  assumes "g = COLUMN_LEFT_TO_RIGHT \<or> g = COLUMN_RIGHT_TO_LEFT"
  shows "\<exists>groups. fst (get_characters_grouped (Member g) i f a t) = Inr groups \<and>
     mset (concat groups) =
       filter_mset (\<lambda>c. 0 \<le> column (input_coord c) \<and> column (input_coord c) \<le> right (canvas t))
         (mset (select_characters t i f a))"
  using assms
  by (auto simp: get_characters_grouped_def Let_def mset_group_by_index distinct_py_range
      set_py_range_bounds intro!: filter_mset_cong)

lemma get_characters_grouped_rows:
  assumes "g = ROW_BOTTOM_TO_TOP \<or> g = ROW_TOP_TO_BOTTOM"
  shows "\<exists>groups. fst (get_characters_grouped (Member g) i f a t) = Inr groups \<and>
     mset (concat groups) =
       filter_mset (\<lambda>c. 0 \<le> row (input_coord c) \<and> row (input_coord c) \<le> top_row (canvas t))
         (mset (select_characters t i f a))"
  using assms
  by (auto simp: get_characters_grouped_def Let_def mset_group_by_index distinct_py_range
      set_py_range_bounds intro!: filter_mset_cong)

lemma get_characters_grouped_rising_diagonals:
  assumes "g = DIAGONAL_BOTTOM_LEFT_TO_TOP_RIGHT \<or> g = DIAGONAL_TOP_RIGHT_TO_BOTTOM_LEFT"
  shows "\<exists>groups. fst (get_characters_grouped (Member g) i f a t) = Inr groups \<and>
     mset (concat groups) =
       filter_mset (\<lambda>c. 0 \<le> row (input_coord c) + column (input_coord c) \<and>
                        row (input_coord c) + column (input_coord c)
                          \<le> top_row (canvas t) + right (canvas t))
         (mset (select_characters t i f a))"
  using assms
  by (auto simp: get_characters_grouped_def Let_def mset_group_by_index distinct_py_range
      set_py_range_bounds intro!: filter_mset_cong)

lemma get_characters_grouped_falling_diagonals:
  assumes "g = DIAGONAL_TOP_LEFT_TO_BOTTOM_RIGHT \<or> g = DIAGONAL_BOTTOM_RIGHT_TO_TOP_LEFT"
  shows "\<exists>groups. fst (get_characters_grouped (Member g) i f a t) = Inr groups \<and>
     mset (concat groups) =
       filter_mset (\<lambda>c. left (canvas t) - top_row (canvas t)
                          \<le> column (input_coord c) - row (input_coord c) \<and>
                        column (input_coord c) - row (input_coord c)
                          \<le> right (canvas t) - bottom (canvas t))
         (mset (select_characters t i f a))"
  using assms
  by (auto simp: get_characters_grouped_def Let_def mset_group_by_index distinct_py_range
      set_py_range_bounds intro!: filter_mset_cong)

lemma get_characters_grouped_diamonds:
  assumes "g = CENTER_TO_OUTSIDE_DIAMONDS \<or> g = OUTSIDE_TO_CENTER_DIAMONDS"
  shows "\<exists>groups. fst (get_characters_grouped (Member g) i f a t) = Inr groups \<and>
     mset (concat groups) = mset (select_characters t i f a)"
proof -
  let ?all = "sort_key (\<lambda>c. (row (input_coord c), column (input_coord c)))
      (select_characters t i f a)"
  have "\<exists>groups. lookup_groups (build_distance_map (canvas t) ?all [])
            (sorted_keys (map fst (build_distance_map (canvas t) ?all [])) b) = Inr groups \<and>
          mset (concat groups) = mset ?all" for b
    by (rule diamonds_contents) simp
  then show ?thesis
    using assms by (auto simp: get_characters_grouped_def Let_def)
qed

text \<open>
  So every grouping is complete, with no duplicate and no omission, when the left and
  bottom bounds are not negative and every requested character has its input coordinate
  in the canvas.
\<close>

lemma get_characters_grouped_complete_in_canvas:
  assumes "0 \<le> left (canvas t)" "0 \<le> bottom (canvas t)"
    and "\<forall>c \<in> set (select_characters t i f a). coord_is_in_canvas (canvas t) (input_coord c)"
  shows "\<exists>groups. fst (get_characters_grouped (Member g) i f a t) = Inr groups \<and>
     mset (concat groups) = mset (select_characters t i f a)"
proof -
  let ?sel = "select_characters t i f a"
  have all: "filter_mset P (mset ?sel) = mset ?sel" if "\<forall>c \<in> set ?sel. P c" for P
    using that by (simp add: filter_mset_eq_conv)
  have b: "left (canvas t) \<le> column (input_coord c)" "column (input_coord c) \<le> right (canvas t)"
    "bottom (canvas t) \<le> row (input_coord c)" "row (input_coord c) \<le> top_row (canvas t)"
    if "c \<in> set ?sel" for c
    using assms(3) that by (simp_all add: coord_is_in_canvas_def)
  have cols: "filter_mset (\<lambda>c. 0 \<le> column (input_coord c) \<and>
      column (input_coord c) \<le> right (canvas t)) (mset ?sel) = mset ?sel"
    using b assms(1) by (intro all) force
  have rows: "filter_mset (\<lambda>c. 0 \<le> row (input_coord c) \<and>
      row (input_coord c) \<le> top_row (canvas t)) (mset ?sel) = mset ?sel"
    using b assms(2) by (intro all) force
  have up: "filter_mset (\<lambda>c. 0 \<le> row (input_coord c) + column (input_coord c) \<and>
      row (input_coord c) + column (input_coord c) \<le> top_row (canvas t) + right (canvas t))
      (mset ?sel) = mset ?sel"
    using b assms(1,2) by (intro all) force
  have down: "filter_mset (\<lambda>c. left (canvas t) - top_row (canvas t)
                          \<le> column (input_coord c) - row (input_coord c) \<and>
      column (input_coord c) - row (input_coord c) \<le> right (canvas t) - bottom (canvas t))
      (mset ?sel) = mset ?sel"
    using b by (intro all) force
  show ?thesis
  proof (cases g)
    case COLUMN_LEFT_TO_RIGHT
    then show ?thesis using get_characters_grouped_columns [of g i f a t] cols by simp
  next
    case COLUMN_RIGHT_TO_LEFT
    then show ?thesis using get_characters_grouped_columns [of g i f a t] cols by simp
  next
    case ROW_TOP_TO_BOTTOM
    then show ?thesis using get_characters_grouped_rows [of g i f a t] rows by simp
  next
    case ROW_BOTTOM_TO_TOP
    then show ?thesis using get_characters_grouped_rows [of g i f a t] rows by simp
  next
    case DIAGONAL_TOP_LEFT_TO_BOTTOM_RIGHT
    then show ?thesis using get_characters_grouped_falling_diagonals [of g i f a t] down by simp
  next
    case DIAGONAL_BOTTOM_LEFT_TO_TOP_RIGHT
    then show ?thesis using get_characters_grouped_rising_diagonals [of g i f a t] up by simp
  next
    case DIAGONAL_TOP_RIGHT_TO_BOTTOM_LEFT
    then show ?thesis using get_characters_grouped_rising_diagonals [of g i f a t] up by simp
  next
    case DIAGONAL_BOTTOM_RIGHT_TO_TOP_LEFT
    then show ?thesis using get_characters_grouped_falling_diagonals [of g i f a t] down by simp
  next
    case CENTER_TO_OUTSIDE_DIAMONDS
    then show ?thesis using get_characters_grouped_diamonds [of g i f a t] by simp
  next
    case OUTSIDE_TO_CENTER_DIAMONDS
    then show ?thesis using get_characters_grouped_diamonds [of g i f a t] by simp
  qed
qed

text \<open>
  C1: on the terminal built from "AB\<newline>C", after \<^verbatim>\<open>add_character("X", Coord(5, 5))\<close>,
  a query for the input and the added characters selects A, B, C and X. Grouped by
  COLUMN_LEFT_TO_RIGHT the result is the two groups [C, A] and [B]: X, whose column 5
  is beyond \<^verbatim>\<open>canvas.right\<close>, is in no group. CENTER_TO_OUTSIDE_DIAMONDS on the same
  query returns all four characters.
\<close>

theorem get_characters_grouped_omits_added_character:
  "\<exists>t t'. Terminal_init (str_of ''AB\<newline>C'') TerminalConfig_default (80, 24) = Some (Inr t) \<and>
     add_character (str_of ''X'') (Coord 5 5) t = (EffectCharacter_init 4 [88] 5 5, t') \<and>
     select_characters t' True False True =
       [EffectCharacter_init 0 [65] 1 2, EffectCharacter_init 1 [66] 2 2,
        EffectCharacter_init 2 [67] 1 1, EffectCharacter_init 4 [88] 5 5] \<and>
     fst (get_characters_grouped (Member COLUMN_LEFT_TO_RIGHT) True False True t') =
       Inr [[EffectCharacter_init 2 [67] 1 1, EffectCharacter_init 0 [65] 1 2],
            [EffectCharacter_init 1 [66] 2 2]] \<and>
     fst (get_characters_grouped (Member CENTER_TO_OUTSIDE_DIAMONDS) True False True t') =
       Inr [[EffectCharacter_init 2 [67] 1 1], [EffectCharacter_init 0 [65] 1 2],
            [EffectCharacter_init 1 [66] 2 2], [EffectCharacter_init 4 [88] 5 5]]"
proof -
  obtain t where t: "Terminal_init (str_of ''AB\<newline>C'') TerminalConfig_default (80, 24) = Some (Inr t)"
    "input_characters t = [EffectCharacter_init 0 [65] 1 2, EffectCharacter_init 1 [66] 2 2,
                           EffectCharacter_init 2 [67] 1 1]"
    "added_characters t = []" "canvas t = Canvas_default 2 2" "next_character_id t = 4"
    "config t = TerminalConfig_default"
    using Terminal_init_example by blast
  let ?t' = "snd (add_character (str_of ''X'') (Coord 5 5) t)"
  have add: "add_character (str_of ''X'') (Coord 5 5) t = (EffectCharacter_init 4 [88] 5 5, ?t')"
    using t(5,6)
    by (simp add: add_character_def Let_def EffectCharacter_init_def str_of_def
        TerminalConfig_default_def)
  have t': "input_characters ?t' = input_characters t" "canvas ?t' = canvas t"
    "added_characters ?t' = [EffectCharacter_init 4 [88] 5 5]"
    using t(3,5,6)
    by (simp_all add: add_character_def Let_def EffectCharacter_init_def str_of_def
        TerminalConfig_default_def)
  have sel: "select_characters ?t' True False True =
       [EffectCharacter_init 0 [65] 1 2, EffectCharacter_init 1 [66] 2 2,
        EffectCharacter_init 2 [67] 1 1, EffectCharacter_init 4 [88] 5 5]"
    using t' t(2) by (simp add: select_characters_def)
  have cols: "fst (get_characters_grouped (Member COLUMN_LEFT_TO_RIGHT) True False True ?t') =
       Inr [[EffectCharacter_init 2 [67] 1 1, EffectCharacter_init 0 [65] 1 2],
            [EffectCharacter_init 1 [66] 2 2]]"
    unfolding get_characters_grouped_def sel t'(2) t(4)
    by (simp add: EffectCharacter_init_def Canvas_default_def Canvas_init_def py_range_def
        upto.simps)
  have dia: "fst (get_characters_grouped (Member CENTER_TO_OUTSIDE_DIAMONDS) True False True ?t') =
       Inr [[EffectCharacter_init 2 [67] 1 1], [EffectCharacter_init 0 [65] 1 2],
            [EffectCharacter_init 1 [66] 2 2], [EffectCharacter_init 4 [88] 5 5]]"
    unfolding get_characters_grouped_def sel t'(2) t(4)
    by (simp add: EffectCharacter_init_def Canvas_default_def Canvas_init_def
        distance_map_append_def sorted_keys_def)
  show ?thesis
    by (rule exI [of _ t], rule exI [of _ ?t']) (intro conjI t(1) add sel cols dia)
qed

end
